(* ===== verification/Prelude.thy ===== *)
theory Prelude
  imports Main "HOL-Library.Word"
begin

text \<open>
  Shared vocabulary of the development: the faults a C call can end in, the result type of
  a modelled call and its sequencing, bounds-checked access to C arrays, and byte memory with
  reads (\<open>bytes_at\<close>), writes (\<open>overwrite\<close>) and the four-byte encoding of a C \<open>int\<close>.

  C types. \<open>size_t\<close> is a 64-bit word, so its arithmetic wraps around as the code's does.
  An \<open>int\<close> of the code is an HOL \<open>int\<close>: the program does no arithmetic on signed integers
  that could leave the 32-bit range, and the two conversions that can (\<open>(int)\<close> of a
  \<open>size_t\<close>, and storing an \<open>int\<close> in a directory entry) are written out below.
\<close>

type_synonym byte = "8 word"
type_synonym size_t = "64 word"

subsection \<open>Faults and results\<close>

text \<open>
  A call either returns (\<open>Inr\<close>) or ends the process or its progress (\<open>Inl\<close>): a failed
  \<open>ALWAYS_ASSERT\<close> or \<open>PANIC\<close>, an \<open>ERROR\<close> (both call \<open>exit\<close>), an access that C leaves
  undefined, a wait that nothing ends (\<open>Deadlock\<close>), a loop that never ends (\<open>Diverges\<close>), or a
  wait for an input that is not there yet (\<open>Waiting\<close>). An error that the code reports by
  returning \<open>-1\<close> is a returned value, not a fault.
\<close>

datatype fault =
    Panic string
  | Exit_failure string
  | Null_deref
  | Out_of_bounds
  | Div_by_zero
  | Deadlock
  | Diverges
  | Waiting

type_synonym 'a res = "fault + 'a"

fun res_bind :: "'a res \<Rightarrow> ('a \<Rightarrow> 'b res) \<Rightarrow> 'b res" where
  "res_bind (Inl e) f = Inl e"
| "res_bind (Inr x) f = f x"

definition always_assert :: "bool \<Rightarrow> string \<Rightarrow> unit res" where
  "always_assert c msg = (if c then Inr () else Inl (Panic msg))"

named_theorems res_iff \<open>when a sequenced call returns\<close>

lemma res_bind_Inr_iff [res_iff]:
  "res_bind r f = Inr y \<longleftrightarrow> (\<exists>x. r = Inr x \<and> f x = Inr y)"
  by (cases r) auto

lemma res_bind_Inl_iff [res_iff]:
  "res_bind r f = Inl e \<longleftrightarrow> r = Inl e \<or> (\<exists>x. r = Inr x \<and> f x = Inl e)"
  by (cases r) auto

lemma always_assert_simps [simp]:
  "always_assert True msg = Inr ()"
  "always_assert False msg = Inl (Panic msg)"
  by (simp_all add: always_assert_def)

lemma always_assert_Inr_iff [res_iff]: "always_assert c msg = Inr u \<longleftrightarrow> c"
  by (simp add: always_assert_def)

subsection \<open>Arrays behind a pointer\<close>

text \<open>
  A global array is a pointer to malloc'ed memory: \<open>None\<close> is \<open>NULL\<close>, \<open>Some xs\<close> an array
  of exactly \<open>length xs\<close> elements.
\<close>

definition load_at :: "'a list option \<Rightarrow> int \<Rightarrow> 'a res" where
  "load_at a i =
     (case a of None \<Rightarrow> Inl Null_deref
      | Some xs \<Rightarrow> if 0 \<le> i \<and> i < int (length xs) then Inr (xs ! nat i) else Inl Out_of_bounds)"

definition store_at :: "'a list option \<Rightarrow> int \<Rightarrow> 'a \<Rightarrow> 'a list option res" where
  "store_at a i v =
     (case a of None \<Rightarrow> Inl Null_deref
      | Some xs \<Rightarrow> if 0 \<le> i \<and> i < int (length xs) then Inr (Some (xs[nat i := v]))
                  else Inl Out_of_bounds)"

lemma load_at_Some [simp]: "0 \<le> i \<Longrightarrow> i < int (length xs) \<Longrightarrow> load_at (Some xs) i = Inr (xs ! nat i)"
  by (simp add: load_at_def)

lemma store_at_Some [simp]:
  "0 \<le> i \<Longrightarrow> i < int (length xs) \<Longrightarrow> store_at (Some xs) i v = Inr (Some (xs[nat i := v]))"
  by (simp add: store_at_def)

lemma load_at_Inr_iff [res_iff]:
  "load_at a i = Inr x \<longleftrightarrow> (\<exists>xs. a = Some xs \<and> 0 \<le> i \<and> i < int (length xs) \<and> x = xs ! nat i)"
  by (auto simp: load_at_def split: option.splits)

lemma store_at_Inr_iff [res_iff]:
  "store_at a i v = Inr b \<longleftrightarrow>
     (\<exists>xs. a = Some xs \<and> 0 \<le> i \<and> i < int (length xs) \<and> b = Some (xs[nat i := v]))"
  by (auto simp: store_at_def split: option.splits)

text \<open>
  The cast of a \<open>size_t\<close> loop counter (given by its value) to an \<open>int\<close>: the low 32 bits,
  read as two's complement.
\<close>

definition int_of_size :: "nat \<Rightarrow> int" where
  "int_of_size n = signed_take_bit 31 (int n)"

lemma int_of_size_small [simp]: "n < 2 ^ 31 \<Longrightarrow> int_of_size n = int n"
proof -
  assume "n < 2 ^ 31"
  then have "int n < 2 ^ 31" using of_nat_less_iff [of n "2 ^ 31", where 'a = int] by simp
  then show ?thesis by (simp add: int_of_size_def signed_take_bit_int_eq_self)
qed

lemma unat_of_nat_size: "n < 2 ^ 64 \<Longrightarrow> unat (of_nat n :: size_t) = n"
  by (simp add: unsigned_of_nat take_bit_nat_eq_self)

lemma unat_plus_of_nat:
  fixes w :: size_t
  assumes "unat w + n < 2 ^ 64"
  shows "unat (w + of_nat n) = unat w + n"
proof -
  have "w + of_nat n = of_nat (unat w + n)" by simp
  then show ?thesis using unat_of_nat_size [OF assms] by simp
qed

text \<open>A \<open>size_t\<close> that is small enough keeps its value when it is returned as an \<open>ssize_t\<close>.\<close>

lemma sint_size:
  fixes w :: size_t
  assumes "unat w = n" and "n < 2 ^ 63"
  shows "sint w = int n"
proof -
  have u: "uint w = int n" using assms(1) by (metis uint_nat)
  have "int n < 2 ^ 63" using assms(2) of_nat_less_iff [of n "2 ^ 63", where 'a = int] by simp
  then show ?thesis by (simp add: sint_uint u signed_take_bit_int_eq_self)
qed

subsection \<open>Byte memory\<close>

definition bytes_at :: "nat \<Rightarrow> nat \<Rightarrow> 'a list \<Rightarrow> 'a list" where
  "bytes_at off n d = take n (drop off d)"

definition overwrite :: "nat \<Rightarrow> 'a list \<Rightarrow> 'a list \<Rightarrow> 'a list" where
  "overwrite off bs d = take off d @ bs @ drop (off + length bs) d"

definition mem_load :: "'a list option \<Rightarrow> nat \<Rightarrow> nat \<Rightarrow> 'a list res" where
  "mem_load m off n =
     (case m of None \<Rightarrow> Inl Null_deref
      | Some d \<Rightarrow> if off + n \<le> length d then Inr (bytes_at off n d) else Inl Out_of_bounds)"

definition mem_store :: "'a list option \<Rightarrow> nat \<Rightarrow> 'a list \<Rightarrow> 'a list option res" where
  "mem_store m off bs =
     (case m of None \<Rightarrow> Inl Null_deref
      | Some d \<Rightarrow> if off + length bs \<le> length d then Inr (Some (overwrite off bs d))
                 else Inl Out_of_bounds)"

text \<open>The memory from an address to the end of its object, for the C string functions.\<close>

definition mem_from :: "'a list option \<Rightarrow> nat \<Rightarrow> 'a list res" where
  "mem_from m off =
     (case m of None \<Rightarrow> Inl Null_deref
      | Some d \<Rightarrow> if off \<le> length d then Inr (drop off d) else Inl Out_of_bounds)"

named_theorems mem_simps \<open>reads over writes\<close>

lemma length_overwrite [simp]: "off + length bs \<le> length d \<Longrightarrow> length (overwrite off bs d) = length d"
  by (simp add: overwrite_def)

lemma length_bytes_at [simp]: "off + n \<le> length d \<Longrightarrow> length (bytes_at off n d) = n"
  by (simp add: bytes_at_def)

lemma bytes_at_0 [simp]: "bytes_at off 0 d = []"
  by (simp add: bytes_at_def)

lemma nth_bytes_at: "i < n \<Longrightarrow> off + n \<le> length d \<Longrightarrow> bytes_at off n d ! i = d ! (off + i)"
  by (simp add: bytes_at_def)

lemma nth_overwrite:
  "off + length bs \<le> length d \<Longrightarrow> i < length d \<Longrightarrow>
     overwrite off bs d ! i = (if off \<le> i \<and> i < off + length bs then bs ! (i - off) else d ! i)"
  by (auto simp: overwrite_def nth_append min_def)

lemma bytes_at_overwrite_same [mem_simps]:
  "off + length bs \<le> length d \<Longrightarrow> bytes_at off (length bs) (overwrite off bs d) = bs"
  by (simp add: bytes_at_def overwrite_def)

lemma bytes_at_overwrite_disjoint [mem_simps]:
  assumes "off + length bs \<le> length d" and "off' + n \<le> length d"
    and "off' + n \<le> off \<or> off + length bs \<le> off'"
  shows "bytes_at off' n (overwrite off bs d) = bytes_at off' n d"
  using assms by (intro nth_equalityI) (auto simp: nth_bytes_at nth_overwrite)

lemma bytes_at_bytes_at [mem_simps]:
  "off + n \<le> m \<Longrightarrow> base + m \<le> length d \<Longrightarrow> bytes_at off n (bytes_at base m d) = bytes_at (base + off) n d"
  by (intro nth_equalityI) (auto simp: nth_bytes_at add.assoc)

lemma bytes_at_overwrite_inside [mem_simps]:
  assumes "base + m \<le> length d" and "off + length bs \<le> m"
  shows "bytes_at base m (overwrite (base + off) bs d) = overwrite off bs (bytes_at base m d)"
  using assms by (intro nth_equalityI) (auto simp: nth_bytes_at nth_overwrite)

lemma take_bytes_at: "n \<le> m \<Longrightarrow> take n (bytes_at off m d) = bytes_at off n d"
  by (simp add: bytes_at_def min_def)

lemma mem_load_Some [simp]: "off + n \<le> length d \<Longrightarrow> mem_load (Some d) off n = Inr (bytes_at off n d)"
  by (simp add: mem_load_def)

lemma mem_store_Some [simp]:
  "off + length bs \<le> length d \<Longrightarrow> mem_store (Some d) off bs = Inr (Some (overwrite off bs d))"
  by (simp add: mem_store_def)

lemma mem_from_Some [simp]: "off \<le> length d \<Longrightarrow> mem_from (Some d) off = Inr (drop off d)"
  by (simp add: mem_from_def)

lemma mem_load_Inr_iff [res_iff]:
  "mem_load m off n = Inr bs \<longleftrightarrow>
     (\<exists>d. m = Some d \<and> off + n \<le> length d \<and> bs = bytes_at off n d)"
  by (auto simp: mem_load_def split: option.splits)

lemma mem_store_Inr_iff [res_iff]:
  "mem_store m off bs = Inr m' \<longleftrightarrow>
     (\<exists>d. m = Some d \<and> off + length bs \<le> length d \<and> m' = Some (overwrite off bs d))"
  by (auto simp: mem_store_def split: option.splits)

subsection \<open>An \<open>int\<close> in memory\<close>

text \<open>Four bytes, two's complement, least significant byte first (x86-64).\<close>

definition int_bytes :: "int \<Rightarrow> byte list" where
  "int_bytes i = [word_of_int i, word_of_int (i div 256),
                  word_of_int (i div 65536), word_of_int (i div 16777216)]"

definition bytes_int :: "byte list \<Rightarrow> int" where
  "bytes_int bs = signed_take_bit 31
     (uint (bs ! 0) + 256 * uint (bs ! 1) + 65536 * uint (bs ! 2) + 16777216 * uint (bs ! 3))"

lemma length_int_bytes [simp]: "length (int_bytes i) = 4"
  by (simp add: int_bytes_def)

lemma base256_horner:
  fixes a :: int
  assumes "a = 256 * b + r0" and "b = 256 * c + r1" and "c = 256 * d + r2"
  shows "r0 + 256 * r1 + 65536 * r2 + 16777216 * d = a"
  using assms by simp

lemma base256_digits:
  fixes i :: int
  shows "i mod 256 + 256 * (i div 256 mod 256) + 65536 * (i div 65536 mod 256)
           + 16777216 * (i div 16777216 mod 256) = i mod 4294967296"
proof (rule base256_horner)
  show "i mod 4294967296 = 256 * (i div 256 mod 16777216) + i mod 256"
    using zmod_zmult2_eq [of 16777216 i 256] by simp
  show "i div 256 mod 16777216 = 256 * (i div 65536 mod 65536) + i div 256 mod 256"
    using zmod_zmult2_eq [of 65536 "i div 256" 256] by (simp add: zdiv_zmult2_eq [symmetric])
  show "i div 65536 mod 65536 = 256 * (i div 16777216 mod 256) + i div 65536 mod 256"
    using zmod_zmult2_eq [of 256 "i div 65536" 256] by (simp add: zdiv_zmult2_eq [symmetric])
qed

lemma bytes_int_int_bytes:
  assumes "- (2 ^ 31) \<le> i" and "i < 2 ^ 31"
  shows "bytes_int (int_bytes i) = i"
proof -
  have "bytes_int (int_bytes i) = signed_take_bit 31 (take_bit 32 i)"
    by (simp add: bytes_int_def int_bytes_def uint_word_of_int base256_digits take_bit_eq_mod)
  also have "\<dots> = signed_take_bit 31 i"
    by (simp add: signed_take_bit_take_bit)
  also have "\<dots> = i"
    using assms by (simp add: signed_take_bit_int_eq_self)
  finally show ?thesis .
qed

lemma bytes_int_minus_one [simp]: "bytes_int (int_bytes (- 1)) = - 1"
  by (simp add: bytes_int_int_bytes)

subsection \<open>Lists\<close>

text \<open>Bytes written at an offset of a file's contents, extending them when they reach past the end.\<close>

definition write_at :: "nat \<Rightarrow> 'a list \<Rightarrow> 'a list \<Rightarrow> 'a list" where
  "write_at off bs c = take off c @ bs @ drop (off + length bs) c"

lemma take_overwrite:
  assumes "off \<le> n" and "n \<le> length B" and "off + length bs \<le> length B"
  shows "take (max n (off + length bs)) (overwrite off bs B) = write_at off bs (take n B)"
proof (cases "n \<le> off + length bs")
  case True
  then show ?thesis using assms by (simp add: overwrite_def write_at_def max_def)
next
  case False
  then show ?thesis using assms by (simp add: overwrite_def write_at_def max_def drop_take)
qed

lemma length_write_at: "off \<le> length c \<Longrightarrow> length (write_at off bs c) = max (length c) (off + length bs)"
  by (simp add: write_at_def max_def min_def)

lemma nth_upd_cases: "i < length xs \<Longrightarrow> xs[i := v] ! j = (if j = i then v else xs ! j)"
  by (simp add: nth_list_update)

subsection \<open>Decimal numbers\<close>

text \<open>The digits that \<open>printf\<close> prints for a number.\<close>

fun decimal_digits :: "nat \<Rightarrow> nat list" where
  "decimal_digits n = (if n < 10 then [n] else decimal_digits (n div 10) @ [n mod 10])"

declare decimal_digits.simps [simp del]

lemma decimal_digits_value: "foldl (\<lambda>v d. 10 * v + d) 0 (decimal_digits n) = n"
  by (induction n rule: decimal_digits.induct) (subst decimal_digits.simps, simp)

subsection \<open>Sequences of calls\<close>

text \<open>Calls made one after the other on a state, with their replies; the first fault ends them.\<close>

fun run_calls :: "('s \<Rightarrow> 'c \<Rightarrow> ('r \<times> 's) res) \<Rightarrow> 'c list \<Rightarrow> 's \<Rightarrow> ('r list \<times> 's) res" where
  "run_calls step [] s = Inr ([], s)"
| "run_calls step (c # cs) s =
     res_bind (step s c) (\<lambda>(r, s). res_bind (run_calls step cs s) (\<lambda>(rs, s). Inr (r # rs, s)))"

lemma run_calls_snoc:
  "run_calls step (cs @ [c]) s =
     res_bind (run_calls step cs s) (\<lambda>(rs, s). res_bind (step s c) (\<lambda>(r, s). Inr (rs @ [r], s)))"
proof (induction cs arbitrary: s)
  case Nil
  show ?case by (cases "step s c") auto
next
  case (Cons d cs)
  show ?case
  proof (cases "step s d")
    case (Inr p)
    obtain r t where p: "p = (r, t)" by (cases p)
    show ?thesis
      using Inr p Cons.IH [of t]
      by (cases "run_calls step cs t"; cases "step (snd (projr (run_calls step cs t))) c") auto
  qed simp
qed

end
