(* ===== verification/CString.thy ===== *)
theory CString
  imports Prelude "HOL-Library.List_Lexorder"
begin

text \<open>
  The functions of \<open>string.h\<close> the program calls, over memory. A \<open>char *\<close> argument is the
  memory from the pointer to the end of the object it points into; a call that runs past
  that end before it meets a terminating zero is \<open>Out_of_bounds\<close>. \<open>cstr m\<close> is the string
  such memory holds, and the lemmas say what each function computes of it.
\<close>

fun c_strlen :: "byte list \<Rightarrow> nat res" where
  "c_strlen [] = Inl Out_of_bounds"
| "c_strlen (c # cs) = (if c = 0 then Inr 0 else res_bind (c_strlen cs) (\<lambda>n. Inr (Suc n)))"

text \<open>Bytes are compared as \<open>unsigned char\<close>; the result is the difference at the first mismatch.\<close>

fun c_strcmp :: "byte list \<Rightarrow> byte list \<Rightarrow> int res" where
  "c_strcmp (a # as) (b # bs) =
     (if a \<noteq> b then Inr (uint a - uint b)
      else if a = 0 then Inr 0
      else c_strcmp as bs)"
| "c_strcmp _ _ = Inl Out_of_bounds"

fun c_strncmp :: "byte list \<Rightarrow> byte list \<Rightarrow> nat \<Rightarrow> int res" where
  "c_strncmp _ _ 0 = Inr 0"
| "c_strncmp (a # as) (b # bs) (Suc n) =
     (if a \<noteq> b then Inr (uint a - uint b)
      else if a = 0 then Inr 0
      else c_strncmp as bs n)"
| "c_strncmp _ _ (Suc n) = Inl Out_of_bounds"

text \<open>
  \<open>strncpy\<close> writes exactly \<open>n\<close> bytes, padding with zeros after the terminator; \<open>strcpy\<close>
  writes up to and including it. Both give the bytes written at the destination.
\<close>

fun c_strncpy :: "byte list \<Rightarrow> nat \<Rightarrow> byte list res" where
  "c_strncpy _ 0 = Inr []"
| "c_strncpy [] (Suc n) = Inl Out_of_bounds"
| "c_strncpy (c # cs) (Suc n) =
     (if c = 0 then Inr (replicate (Suc n) 0)
      else res_bind (c_strncpy cs n) (\<lambda>bs. Inr (c # bs)))"

fun c_strcpy :: "byte list \<Rightarrow> byte list res" where
  "c_strcpy [] = Inl Out_of_bounds"
| "c_strcpy (c # cs) = (if c = 0 then Inr [0] else res_bind (c_strcpy cs) (\<lambda>bs. Inr (c # bs)))"

subsection \<open>The string that memory holds\<close>

definition cstr :: "byte list \<Rightarrow> byte list" where
  "cstr m = takeWhile (\<lambda>c. c \<noteq> 0) m"

abbreviation terminated :: "byte list \<Rightarrow> bool" where
  "terminated m \<equiv> 0 \<in> set m"

named_theorems cstr_simps \<open>what the string functions compute\<close>

lemma cstr_simps_list [simp]:
  "cstr [] = []"
  "cstr (c # cs) = (if c = 0 then [] else c # cstr cs)"
  by (simp_all add: cstr_def)

lemma zero_notin_cstr [simp]: "0 \<notin> set (cstr m)"
  by (auto simp: cstr_def dest: set_takeWhileD)

lemma cstr_append_zero [simp]: "0 \<notin> set s \<Longrightarrow> cstr (s @ 0 # m) = s"
  by (induction s) auto

lemma cstr_append: "terminated a \<Longrightarrow> cstr (a @ b) = cstr a"
  by (induction a) auto

lemma cstr_take: "length (cstr m) \<le> n \<Longrightarrow> cstr (take n m) = cstr m"
proof (induction m arbitrary: n)
  case (Cons c m)
  then show ?case by (cases n) (auto split: if_splits)
qed simp

lemma length_cstr_less: "terminated m \<Longrightarrow> length (cstr m) < length m"
  by (induction m) auto

lemma cstr_eq_Nil_iff: "m \<noteq> [] \<Longrightarrow> cstr m = [] \<longleftrightarrow> hd m = 0"
  by (cases m) auto

lemma c_strlen_terminated [cstr_simps]: "terminated m \<Longrightarrow> c_strlen m = Inr (length (cstr m))"
  by (induction m) auto

lemma c_strlen_unterminated: "\<not> terminated m \<Longrightarrow> c_strlen m = Inl Out_of_bounds"
  by (induction m) auto

lemma c_strlen_Inr_iff [res_iff]: "c_strlen m = Inr n \<longleftrightarrow> terminated m \<and> n = length (cstr m)"
  by (cases "terminated m") (auto simp: c_strlen_terminated c_strlen_unterminated)

text \<open>\<open>strcmp\<close> decides equality and the lexicographic order of the two strings.\<close>

lemma c_strcmp_terminated:
  assumes "terminated a" and "terminated b"
  shows "\<exists>r. c_strcmp a b = Inr r \<and> (r = 0 \<longleftrightarrow> cstr a = cstr b) \<and> (r < 0 \<longleftrightarrow> cstr a < cstr b)"
  using assms
proof (induction a b rule: c_strcmp.induct)
  case (1 a as b bs)
  have "uint a - uint b \<noteq> 0" if "a \<noteq> b"
    using that by (simp add: word_uint_eq_iff)
  moreover have "uint a - uint b < 0 \<longleftrightarrow> a < b"
    by (simp add: word_less_def)
  moreover have "0 < b" if "b \<noteq> 0"
    using that by (simp add: word_neq_0_conv)
  ultimately show ?case using 1
    by (cases "a = 0"; cases "b = 0") (auto simp: word_neq_0_conv)
qed auto

text \<open>The first \<open>n\<close> bytes decide \<open>strncmp\<close>; with both strings shorter it is equality.\<close>

lemma c_strncmp_eq:
  assumes "terminated (take n a)" and "terminated b"
  shows "\<exists>r. c_strncmp a b n = Inr r \<and> (r = 0 \<longleftrightarrow> cstr a = cstr b)"
  using assms
proof (induction a b n rule: c_strncmp.induct)
  case (2 a as b bs n)
  have "uint a - uint b \<noteq> 0" if "a \<noteq> b"
    using that by (simp add: word_uint_eq_iff)
  with 2 show ?case by auto
qed auto

lemma c_strncpy_terminated [cstr_simps]:
  "terminated m \<Longrightarrow> length (cstr m) < n \<Longrightarrow>
     c_strncpy m n = Inr (cstr m @ replicate (n - length (cstr m)) 0)"
  by (induction m n rule: c_strncpy.induct) auto

lemma c_strncpy_long:
  "n \<le> length (cstr m) \<Longrightarrow> c_strncpy m n = Inr (take n (cstr m))"
  by (induction m n rule: c_strncpy.induct) (auto split: if_splits)

lemma c_strcpy_terminated [cstr_simps]: "terminated m \<Longrightarrow> c_strcpy m = Inr (cstr m @ [0])"
  by (induction m) auto

end
