(* ===== verification/TfsState.thy ===== *)
theory TfsState
  imports CString
begin

text \<open>
  The storage layer of the file system, \<open>fs/state.c\<close> and \<open>fs/state.h\<close>: the inode table, the
  data blocks, the directory entries kept as bytes in a data block, and the open file table,
  each with its array of allocation states. One definition per C function, with the
  function's own name; a loop of the code is a recursive function whose last number argument
  counts the iterations left. \<open>insert_delay\<close> only spends time and has no counterpart,
  except that the remainder that decides whether to call it fails on a zero block size.
\<close>

subsection \<open>Types and the global state\<close>

record tfs_params =
  max_inode_count :: size_t
  max_block_count :: size_t
  max_open_files_count :: size_t
  block_size :: size_t

datatype inode_type = T_FILE | T_DIRECTORY

record inode_t =
  i_node_type :: inode_type
  i_size :: size_t
  i_data_block :: int

datatype allocation_state_t = FREE | TAKEN

record open_file_entry_t =
  of_inumber :: int
  of_offset :: size_t

text \<open>
  The static variables of \<open>state.c\<close> and the lock of \<open>operations.c\<close> (\<open>True\<close> when held).
  \<open>fs_data\<close> is the one byte array all data blocks live in.
\<close>

record fs_state =
  fs_params :: tfs_params
  inode_table :: "inode_t list option"
  freeinode_ts :: "allocation_state_t list option"
  fs_data :: "byte list option"
  free_blocks :: "allocation_state_t list option"
  open_file_table :: "open_file_entry_t list option"
  free_open_file_entries :: "allocation_state_t list option"
  g_library_mutex :: bool

text \<open>Pointers into the arrays: an index or a byte offset, \<open>None\<close> for \<open>NULL\<close>.\<close>

type_synonym inode_ptr = "int option"
type_synonym block_ptr = "nat option"
type_synonym file_ptr = "int option"
type_synonym c_ptr = "byte list option"

definition MAX_FILE_NAME :: nat where "MAX_FILE_NAME = 40"
definition ROOT_DIR_INUM :: int where "ROOT_DIR_INUM = 0"

text \<open>
  \<open>dir_entry_t\<close> is 40 bytes of name followed by a four-byte \<open>int\<close>, with no padding. The other
  sizes are those of the x86-64 ABI.
\<close>

definition sizeof_dir_entry :: nat where "sizeof_dir_entry = MAX_FILE_NAME + 4"
definition sizeof_inode :: nat where "sizeof_inode = 24"
definition sizeof_alloc_state :: nat where "sizeof_alloc_state = 4"
definition sizeof_open_file :: nat where "sizeof_open_file = 16"

definition max_dir_entries :: "fs_state \<Rightarrow> nat" where
  "max_dir_entries s = unat (block_size (fs_params s)) div sizeof_dir_entry"

definition d_name_at :: "nat \<Rightarrow> nat \<Rightarrow> nat" where
  "d_name_at p i = p + i * sizeof_dir_entry"

definition d_inumber_at :: "nat \<Rightarrow> nat \<Rightarrow> nat" where
  "d_inumber_at p i = p + i * sizeof_dir_entry + MAX_FILE_NAME"

definition deref_str :: "c_ptr \<Rightarrow> byte list res" where
  "deref_str p = (case p of None \<Rightarrow> Inl Null_deref | Some m \<Rightarrow> Inr m)"

definition load_inumber :: "fs_state \<Rightarrow> nat \<Rightarrow> int res" where
  "load_inumber s a = res_bind (mem_load (fs_data s) a 4) (\<lambda>bs. Inr (bytes_int bs))"

definition store_inumber :: "nat \<Rightarrow> int \<Rightarrow> fs_state \<Rightarrow> fs_state res" where
  "store_inumber a i s =
     res_bind (mem_store (fs_data s) a (int_bytes i)) (\<lambda>d. Inr (s\<lparr>fs_data := d\<rparr>))"

definition store_bytes :: "nat \<Rightarrow> byte list \<Rightarrow> fs_state \<Rightarrow> fs_state res" where
  "store_bytes a bs s = res_bind (mem_store (fs_data s) a bs) (\<lambda>d. Inr (s\<lparr>fs_data := d\<rparr>))"

definition load_inode :: "fs_state \<Rightarrow> inode_ptr \<Rightarrow> inode_t res" where
  "load_inode s ip = (case ip of None \<Rightarrow> Inl Null_deref | Some i \<Rightarrow> load_at (inode_table s) i)"

definition store_inode :: "inode_ptr \<Rightarrow> inode_t \<Rightarrow> fs_state \<Rightarrow> fs_state res" where
  "store_inode ip v s =
     (case ip of None \<Rightarrow> Inl Null_deref
      | Some i \<Rightarrow> res_bind (store_at (inode_table s) i v) (\<lambda>t. Inr (s\<lparr>inode_table := t\<rparr>)))"

subsection \<open>Validity of numbers\<close>

text \<open>A non-negative \<open>int\<close> keeps its value when C converts it to \<open>size_t\<close> for the comparison.\<close>

definition valid_inumber :: "fs_state \<Rightarrow> int \<Rightarrow> bool" where
  "valid_inumber s i \<longleftrightarrow> 0 \<le> i \<and> nat i < unat (max_inode_count (fs_params s))"

definition valid_block_number :: "fs_state \<Rightarrow> int \<Rightarrow> bool" where
  "valid_block_number s b \<longleftrightarrow> 0 \<le> b \<and> nat b < unat (max_block_count (fs_params s))"

definition valid_file_handle :: "fs_state \<Rightarrow> int \<Rightarrow> bool" where
  "valid_file_handle s h \<longleftrightarrow> 0 \<le> h \<and> nat h < unat (max_open_files_count (fs_params s))"

definition state_block_size :: "fs_state \<Rightarrow> size_t" where
  "state_block_size s = block_size (fs_params s)"

subsection \<open>Initialisation\<close>

text \<open>
  What \<open>malloc\<close> returns is decided by the caller of the model: for each array either
  failure (\<open>None\<close>) or the uninitialised contents the memory happens to hold. The number of
  elements follows from the number of bytes asked for, a product that wraps around.
\<close>

record mallocs =
  m_inode_table :: "(nat \<Rightarrow> inode_t) option"
  m_freeinode_ts :: "(nat \<Rightarrow> allocation_state_t) option"
  m_fs_data :: "(nat \<Rightarrow> byte) option"
  m_free_blocks :: "(nat \<Rightarrow> allocation_state_t) option"
  m_open_file_table :: "(nat \<Rightarrow> open_file_entry_t) option"
  m_free_open_file_entries :: "(nat \<Rightarrow> allocation_state_t) option"

definition malloc_array :: "(nat \<Rightarrow> 'a) option \<Rightarrow> size_t \<Rightarrow> nat \<Rightarrow> 'a list option" where
  "malloc_array m bytes elem_size = map_option (\<lambda>g. map g [0..<unat bytes div elem_size]) m"

fun fill_free ::
  "allocation_state_t list option \<Rightarrow> nat \<Rightarrow> nat \<Rightarrow> allocation_state_t list option res" where
  "fill_free a i 0 = Inr a"
| "fill_free a i (Suc k) = res_bind (store_at a (int i) FREE) (\<lambda>a. fill_free a (Suc i) k)"

definition state_init :: "tfs_params \<Rightarrow> mallocs \<Rightarrow> fs_state \<Rightarrow> (int \<times> fs_state) res" where
  "state_init params m s =
    (let s = s\<lparr>fs_params := params\<rparr> in
     if inode_table s \<noteq> None then Inr (- 1, s)
     else
       let n_i = max_inode_count params; n_b = max_block_count params;
           n_f = max_open_files_count params;
           s = s\<lparr>inode_table :=
                   malloc_array (m_inode_table m) (n_i * of_nat sizeof_inode) sizeof_inode,
                 freeinode_ts :=
                   malloc_array (m_freeinode_ts m) (n_i * of_nat sizeof_alloc_state) sizeof_alloc_state,
                 fs_data := malloc_array (m_fs_data m) (n_b * block_size params) 1,
                 free_blocks :=
                   malloc_array (m_free_blocks m) (n_b * of_nat sizeof_alloc_state) sizeof_alloc_state,
                 open_file_table :=
                   malloc_array (m_open_file_table m) (n_f * of_nat sizeof_open_file) sizeof_open_file,
                 free_open_file_entries :=
                   malloc_array (m_free_open_file_entries m)
                     (n_f * of_nat sizeof_alloc_state) sizeof_alloc_state\<rparr>
       in if inode_table s = None \<or> freeinode_ts s = None \<or> fs_data s = None \<or> free_blocks s = None
             \<or> open_file_table s = None \<or> free_open_file_entries s = None
          then Inr (- 1, s)
          else
            res_bind (fill_free (freeinode_ts s) 0 (unat n_i)) (\<lambda>ti.
            res_bind (fill_free (free_blocks s) 0 (unat n_b)) (\<lambda>tb.
            res_bind (fill_free (free_open_file_entries s) 0 (unat n_f)) (\<lambda>tf.
              Inr (0, s\<lparr>freeinode_ts := ti, free_blocks := tb, free_open_file_entries := tf\<rparr>)))))"

definition state_destroy :: "fs_state \<Rightarrow> int \<times> fs_state" where
  "state_destroy s =
    (0, s\<lparr>inode_table := None, freeinode_ts := None, fs_data := None, free_blocks := None,
          open_file_table := None, free_open_file_entries := None\<rparr>)"

subsection \<open>Data blocks\<close>

text \<open>
  The search loops of \<open>inode_alloc\<close>, \<open>data_block_alloc\<close> and \<open>add_to_open_file_table\<close>: the
  first free index from \<open>i\<close> among the next \<open>k\<close>. \<open>pre\<close> is what an iteration does before it
  looks; the first two take a remainder by the block size there.
\<close>

fun scan_free ::
  "unit res \<Rightarrow> allocation_state_t list option \<Rightarrow> nat \<Rightarrow> nat \<Rightarrow> nat option res" where
  "scan_free pre a i 0 = Inr None"
| "scan_free pre a i (Suc k) =
     res_bind pre (\<lambda>_.
     res_bind (load_at a (int i)) (\<lambda>st.
       if st = FREE then Inr (Some i) else scan_free pre a (Suc i) k))"

definition storage_delay :: "fs_state \<Rightarrow> unit res" where
  "storage_delay s = (if block_size (fs_params s) = 0 then Inl Div_by_zero else Inr ())"

definition data_block_alloc :: "fs_state \<Rightarrow> (int \<times> fs_state) res" where
  "data_block_alloc s =
     res_bind (scan_free (storage_delay s) (free_blocks s) 0 (unat (max_block_count (fs_params s))))
       (\<lambda>r. case r of
          None \<Rightarrow> Inr (- 1, s)
        | Some i \<Rightarrow>
            res_bind (store_at (free_blocks s) (int i) TAKEN) (\<lambda>t.
              Inr (int_of_size i, s\<lparr>free_blocks := t\<rparr>)))"

definition data_block_free :: "int \<Rightarrow> fs_state \<Rightarrow> fs_state res" where
  "data_block_free b s =
     res_bind (always_assert (valid_block_number s b) ''data_block_free: invalid block number'') (\<lambda>_.
     res_bind (store_at (free_blocks s) b FREE) (\<lambda>t. Inr (s\<lparr>free_blocks := t\<rparr>)))"

definition data_block_get :: "fs_state \<Rightarrow> int \<Rightarrow> block_ptr res" where
  "data_block_get s b =
     res_bind (always_assert (valid_block_number s b) ''data_block_get: invalid block number'') (\<lambda>_.
       let off = unat (of_int b * block_size (fs_params s))
       in Inr (if fs_data s = None \<and> off = 0 then None else Some off))"

subsection \<open>Inodes\<close>

definition inode_alloc :: "fs_state \<Rightarrow> (int \<times> fs_state) res" where
  "inode_alloc s =
     res_bind (scan_free (storage_delay s) (freeinode_ts s) 0 (unat (max_inode_count (fs_params s))))
       (\<lambda>r. case r of
          None \<Rightarrow> Inr (- 1, s)
        | Some i \<Rightarrow>
            res_bind (store_at (freeinode_ts s) (int i) TAKEN) (\<lambda>t.
              Inr (int_of_size i, s\<lparr>freeinode_ts := t\<rparr>)))"

definition inode_delete :: "int \<Rightarrow> fs_state \<Rightarrow> fs_state res" where
  "inode_delete inumber s =
     res_bind (always_assert (valid_inumber s inumber) ''inode_delete: invalid inumber'') (\<lambda>_.
     res_bind (load_at (freeinode_ts s) inumber) (\<lambda>st.
     res_bind (always_assert (st = TAKEN) ''inode_delete: inode already freed'') (\<lambda>_.
     res_bind (load_at (inode_table s) inumber) (\<lambda>inode.
     res_bind (if i_size inode > 0 then data_block_free (i_data_block inode) s else Inr s) (\<lambda>s.
     res_bind (store_at (freeinode_ts s) inumber FREE) (\<lambda>t.
       Inr (s\<lparr>freeinode_ts := t\<rparr>)))))))"

fun init_dir_entries :: "nat \<Rightarrow> nat \<Rightarrow> nat \<Rightarrow> fs_state \<Rightarrow> fs_state res" where
  "init_dir_entries p i 0 s = Inr s"
| "init_dir_entries p i (Suc k) s =
     res_bind (store_inumber (d_inumber_at p i) (- 1) s) (\<lambda>s. init_dir_entries p (Suc i) k s)"

definition deref_block :: "block_ptr \<Rightarrow> nat res" where
  "deref_block p = (case p of None \<Rightarrow> Inl Null_deref | Some a \<Rightarrow> Inr a)"

definition inode_create :: "inode_type \<Rightarrow> fs_state \<Rightarrow> (int \<times> fs_state) res" where
  "inode_create ty s =
     res_bind (inode_alloc s) (\<lambda>(inumber, s).
     if inumber = - 1 then Inr (- 1, s)
     else
       let ip = Some inumber in
       res_bind (load_inode s ip) (\<lambda>inode.
       res_bind (store_inode ip (inode\<lparr>i_node_type := ty\<rparr>) s) (\<lambda>s.
       case ty of
         T_DIRECTORY \<Rightarrow>
           res_bind (data_block_alloc s) (\<lambda>(b, s).
           res_bind (load_inode s ip) (\<lambda>inode.
           if b = - 1 then
             res_bind (store_inode ip (inode\<lparr>i_size := 0, i_data_block := - 1\<rparr>) s) (\<lambda>s.
             res_bind (inode_delete inumber s) (\<lambda>s.
               Inr (- 1, s)))
           else
             res_bind (store_inode ip
               (inode\<lparr>i_size := block_size (fs_params s), i_data_block := b\<rparr>) s) (\<lambda>s.
             res_bind (data_block_get s b) (\<lambda>p.
             res_bind (always_assert (p \<noteq> None) ''inode_create: data block freed while in use'') (\<lambda>_.
             res_bind (deref_block p) (\<lambda>a.
             res_bind (init_dir_entries a 0 (max_dir_entries s) s) (\<lambda>s.
               Inr (inumber, s))))))))
       | T_FILE \<Rightarrow>
           res_bind (load_inode s ip) (\<lambda>inode.
           res_bind (store_inode ip (inode\<lparr>i_size := 0, i_data_block := - 1\<rparr>) s) (\<lambda>s.
             Inr (inumber, s))))))"

definition inode_get :: "fs_state \<Rightarrow> int \<Rightarrow> inode_ptr res" where
  "inode_get s inumber =
     res_bind (always_assert (valid_inumber s inumber) ''inode_get: invalid inumber'') (\<lambda>_.
       Inr (if inode_table s = None \<and> inumber = 0 then None else Some inumber))"

subsection \<open>Directories\<close>

text \<open>
  The directory functions take a pointer to the directory's inode, reach its block through
  \<open>i_data_block\<close> and treat the block as an array of \<open>dir_entry_t\<close>.
\<close>

definition dir_block :: "fs_state \<Rightarrow> inode_t \<Rightarrow> string \<Rightarrow> nat res" where
  "dir_block s inode msg =
     res_bind (data_block_get s (i_data_block inode)) (\<lambda>p.
     res_bind (always_assert (p \<noteq> None) msg) (\<lambda>_. deref_block p))"

fun clear_dir_loop ::
  "nat \<Rightarrow> c_ptr \<Rightarrow> nat \<Rightarrow> nat \<Rightarrow> fs_state \<Rightarrow> (int \<times> fs_state) res" where
  "clear_dir_loop p sub_name i 0 s = Inr (- 1, s)"
| "clear_dir_loop p sub_name i (Suc k) s =
     res_bind (mem_from (fs_data s) (d_name_at p i)) (\<lambda>m.
     res_bind (deref_str sub_name) (\<lambda>nm.
     res_bind (c_strcmp m nm) (\<lambda>r.
       if r = 0 then
         res_bind (store_inumber (d_inumber_at p i) (- 1) s) (\<lambda>s.
         res_bind (store_bytes (d_name_at p i) (replicate MAX_FILE_NAME 0) s) (\<lambda>s.
           Inr (0, s)))
       else clear_dir_loop p sub_name (Suc i) k s)))"

definition clear_dir_entry :: "inode_ptr \<Rightarrow> c_ptr \<Rightarrow> fs_state \<Rightarrow> (int \<times> fs_state) res" where
  "clear_dir_entry ip sub_name s =
     res_bind (load_inode s ip) (\<lambda>inode.
     if i_node_type inode \<noteq> T_DIRECTORY then Inr (- 1, s)
     else
       res_bind (dir_block s inode ''clear_dir_entry: directory must have a data block'') (\<lambda>p.
         clear_dir_loop p sub_name 0 (max_dir_entries s) s))"

fun add_dir_loop ::
  "nat \<Rightarrow> c_ptr \<Rightarrow> int \<Rightarrow> nat \<Rightarrow> nat \<Rightarrow> fs_state \<Rightarrow> (int \<times> fs_state) res" where
  "add_dir_loop p sub_name sub_inumber i 0 s = Inr (- 1, s)"
| "add_dir_loop p sub_name sub_inumber i (Suc k) s =
     res_bind (load_inumber s (d_inumber_at p i)) (\<lambda>n.
       if n = - 1 then
         res_bind (store_inumber (d_inumber_at p i) sub_inumber s) (\<lambda>s.
         res_bind (deref_str sub_name) (\<lambda>nm.
         res_bind (c_strncpy nm (MAX_FILE_NAME - 1)) (\<lambda>bs.
         res_bind (store_bytes (d_name_at p i) bs s) (\<lambda>s.
         res_bind (store_bytes (d_name_at p i + (MAX_FILE_NAME - 1)) [0] s) (\<lambda>s.
           Inr (0, s))))))
       else add_dir_loop p sub_name sub_inumber (Suc i) k s)"

definition add_dir_entry :: "inode_ptr \<Rightarrow> c_ptr \<Rightarrow> int \<Rightarrow> fs_state \<Rightarrow> (int \<times> fs_state) res" where
  "add_dir_entry ip sub_name sub_inumber s =
     res_bind (deref_str sub_name) (\<lambda>nm.
     res_bind (c_strlen nm) (\<lambda>len.
     if len = 0 \<or> len > MAX_FILE_NAME - 1 then Inr (- 1, s)
     else
       res_bind (load_inode s ip) (\<lambda>inode.
       if i_node_type inode \<noteq> T_DIRECTORY then Inr (- 1, s)
       else
         res_bind (dir_block s inode ''add_dir_entry: directory must have a data block'') (\<lambda>p.
           add_dir_loop p sub_name sub_inumber 0 (max_dir_entries s) s))))"

text \<open>The right operand of \<open>&&\<close> is evaluated only for an entry in use.\<close>

fun find_dir_loop :: "nat \<Rightarrow> c_ptr \<Rightarrow> nat \<Rightarrow> nat \<Rightarrow> fs_state \<Rightarrow> int res" where
  "find_dir_loop p sub_name i 0 s = Inr (- 1)"
| "find_dir_loop p sub_name i (Suc k) s =
     res_bind (load_inumber s (d_inumber_at p i)) (\<lambda>n.
     res_bind
       (if n \<noteq> - 1 then
          res_bind (mem_from (fs_data s) (d_name_at p i)) (\<lambda>m.
          res_bind (deref_str sub_name) (\<lambda>nm.
          res_bind (c_strncmp m nm MAX_FILE_NAME) (\<lambda>r. Inr (r = 0))))
        else Inr False)
       (\<lambda>found. if found then Inr n else find_dir_loop p sub_name (Suc i) k s))"

definition find_in_dir :: "fs_state \<Rightarrow> inode_ptr \<Rightarrow> c_ptr \<Rightarrow> int res" where
  "find_in_dir s ip sub_name =
     res_bind (always_assert (ip \<noteq> None) ''find_in_dir: inode must be non-NULL'') (\<lambda>_.
     res_bind (always_assert (sub_name \<noteq> None) ''find_in_dir: sub_name must be non-NULL'') (\<lambda>_.
     res_bind (load_inode s ip) (\<lambda>inode.
     if i_node_type inode \<noteq> T_DIRECTORY then Inr (- 1)
     else
       res_bind (dir_block s inode ''find_in_dir: directory inode must have a data block'') (\<lambda>p.
         find_dir_loop p sub_name 0 (max_dir_entries s) s))))"

subsection \<open>The open file table\<close>

definition add_to_open_file_table :: "int \<Rightarrow> size_t \<Rightarrow> fs_state \<Rightarrow> (int \<times> fs_state) res" where
  "add_to_open_file_table inumber offset s =
     res_bind (scan_free (Inr ()) (free_open_file_entries s) 0
         (unat (max_open_files_count (fs_params s))))
       (\<lambda>r. case r of
          None \<Rightarrow> Inr (- 1, s)
        | Some i \<Rightarrow>
            res_bind (store_at (free_open_file_entries s) (int i) TAKEN) (\<lambda>t.
            res_bind (store_at (open_file_table s) (int i)
                \<lparr>of_inumber = inumber, of_offset = offset\<rparr>) (\<lambda>f.
              Inr (int i, s\<lparr>free_open_file_entries := t, open_file_table := f\<rparr>))))"

definition remove_from_open_file_table :: "int \<Rightarrow> fs_state \<Rightarrow> fs_state res" where
  "remove_from_open_file_table fhandle s =
     res_bind (always_assert (valid_file_handle s fhandle)
       ''remove_from_open_file_table: file handle must be valid'') (\<lambda>_.
     res_bind (load_at (free_open_file_entries s) fhandle) (\<lambda>st.
     res_bind (always_assert (st = TAKEN)
       ''remove_from_open_file_table: file handle must be taken'') (\<lambda>_.
     res_bind (store_at (free_open_file_entries s) fhandle FREE) (\<lambda>t.
       Inr (s\<lparr>free_open_file_entries := t\<rparr>)))))"

definition get_open_file_entry :: "fs_state \<Rightarrow> int \<Rightarrow> file_ptr res" where
  "get_open_file_entry s fhandle =
     (if \<not> valid_file_handle s fhandle then Inr None
      else res_bind (load_at (free_open_file_entries s) fhandle) (\<lambda>st.
        if st \<noteq> TAKEN then Inr None else Inr (Some fhandle)))"

definition load_file :: "fs_state \<Rightarrow> int \<Rightarrow> open_file_entry_t res" where
  "load_file s h = load_at (open_file_table s) h"

definition store_file :: "int \<Rightarrow> open_file_entry_t \<Rightarrow> fs_state \<Rightarrow> fs_state res" where
  "store_file h f s =
     res_bind (store_at (open_file_table s) h f) (\<lambda>t. Inr (s\<lparr>open_file_table := t\<rparr>))"

end
