(* ===== verification/TfsAlloc.thy ===== *)
theory TfsAlloc
  imports TfsState
begin

text \<open>
  Views of a well-shaped file system state, and the three allocators of \<open>state.c\<close> (inodes,
  data blocks, open file entries). The contract an allocator keeps is the locale
  \<open>allocator\<close>; each of the three is an interpretation of it, so the facts its clients use
  are proved once.
\<close>

subsection \<open>Views\<close>

fun arr :: "'a list option \<Rightarrow> 'a list" where
  "arr None = []"
| "arr (Some xs) = xs"

abbreviation n_inodes :: "fs_state \<Rightarrow> nat" where
  "n_inodes s \<equiv> unat (max_inode_count (fs_params s))"

abbreviation n_blocks :: "fs_state \<Rightarrow> nat" where
  "n_blocks s \<equiv> unat (max_block_count (fs_params s))"

abbreviation n_files :: "fs_state \<Rightarrow> nat" where
  "n_files s \<equiv> unat (max_open_files_count (fs_params s))"

abbreviation bsize :: "fs_state \<Rightarrow> nat" where
  "bsize s \<equiv> unat (block_size (fs_params s))"

abbreviation inode :: "fs_state \<Rightarrow> nat \<Rightarrow> inode_t" where
  "inode s i \<equiv> arr (inode_table s) ! i"

abbreviation ofile :: "fs_state \<Rightarrow> nat \<Rightarrow> open_file_entry_t" where
  "ofile s h \<equiv> arr (open_file_table s) ! h"

definition taken_of :: "allocation_state_t list option \<Rightarrow> nat set" where
  "taken_of a = set (filter (\<lambda>i. arr a ! i = TAKEN) [0..<length (arr a)])"

abbreviation live_inodes :: "fs_state \<Rightarrow> nat set" where
  "live_inodes s \<equiv> taken_of (freeinode_ts s)"

abbreviation used_blocks :: "fs_state \<Rightarrow> nat set" where
  "used_blocks s \<equiv> taken_of (free_blocks s)"

abbreviation open_handles :: "fs_state \<Rightarrow> nat set" where
  "open_handles s \<equiv> taken_of (free_open_file_entries s)"

text \<open>
  The arrays exist with the lengths the parameters announce, and the parameters are small
  enough for the conversions of the code: numbers fit an \<open>int\<close>, sizes an \<open>ssize_t\<close>.
\<close>

definition params_ok :: "tfs_params \<Rightarrow> bool" where
  "params_ok p \<longleftrightarrow>
     unat (max_inode_count p) < 2 ^ 31 \<and> unat (max_block_count p) < 2 ^ 31 \<and>
     unat (max_open_files_count p) < 2 ^ 31 \<and> 0 < unat (block_size p) \<and>
     unat (block_size p) < 2 ^ 63 \<and>
     unat (max_block_count p) * unat (block_size p) < 2 ^ 64"

definition has_len :: "'a list option \<Rightarrow> nat \<Rightarrow> bool" where
  "has_len a n \<longleftrightarrow> (case a of None \<Rightarrow> False | Some xs \<Rightarrow> length xs = n)"

definition shaped :: "fs_state \<Rightarrow> bool" where
  "shaped s \<longleftrightarrow> params_ok (fs_params s) \<and>
     has_len (inode_table s) (n_inodes s) \<and> has_len (freeinode_ts s) (n_inodes s) \<and>
     has_len (fs_data s) (n_blocks s * bsize s) \<and> has_len (free_blocks s) (n_blocks s) \<and>
     has_len (open_file_table s) (n_files s) \<and> has_len (free_open_file_entries s) (n_files s)"

lemma has_len_Some [simp]: "has_len (Some xs) n \<longleftrightarrow> length xs = n"
  by (simp add: has_len_def)

lemma has_len_None [simp]: "\<not> has_len None n"
  by (simp add: has_len_def)

lemma has_len_arr: "has_len a n \<Longrightarrow> a = Some (arr a) \<and> length (arr a) = n"
  by (cases a) auto

lemma has_len_not_None [simp]: "has_len a n \<Longrightarrow> a \<noteq> None"
  by (cases a) auto

lemma taken_of_iff: "i \<in> taken_of a \<longleftrightarrow> i < length (arr a) \<and> arr a ! i = TAKEN"
  by (auto simp: taken_of_def)

lemma finite_taken_of [simp]: "finite (taken_of a)"
  by (simp add: taken_of_def)

lemma taken_of_subset: "has_len a n \<Longrightarrow> taken_of a \<subseteq> {..<n}"
  using has_len_arr by (force simp: taken_of_iff)

lemma taken_of_TAKEN [simp]:
  "has_len a n \<Longrightarrow> i < n \<Longrightarrow> taken_of (Some ((arr a)[i := TAKEN])) = insert i (taken_of a)"
  by (cases a) (auto simp: taken_of_iff nth_list_update split: if_splits)

lemma taken_of_FREE [simp]:
  "has_len a n \<Longrightarrow> taken_of (Some ((arr a)[i := FREE])) = taken_of a - {i}"
  by (cases a; cases "i < n") (auto simp: taken_of_iff nth_list_update split: if_splits)

lemma load_at_arr: "has_len a n \<Longrightarrow> i < n \<Longrightarrow> load_at a (int i) = Inr (arr a ! i)"
  by (cases a) auto

lemma store_at_arr: "has_len a n \<Longrightarrow> i < n \<Longrightarrow> store_at a (int i) v = Inr (Some ((arr a)[i := v]))"
  by (cases a) auto

lemma TAKEN_FREE_iff: "st \<noteq> TAKEN \<longleftrightarrow> st = FREE" "st \<noteq> FREE \<longleftrightarrow> st = TAKEN"
  by (cases st; simp)+

subsection \<open>The search loop\<close>

definition first_free :: "allocation_state_t list \<Rightarrow> nat option" where
  "first_free xs = (let n = length (takeWhile (\<lambda>x. x = TAKEN) xs)
                    in if n < length xs then Some n else None)"

lemma first_free_Nil [simp]: "first_free [] = None"
  by (simp add: first_free_def)

lemma first_free_Cons [simp]:
  "first_free (x # xs) = (if x = FREE then Some 0 else map_option Suc (first_free xs))"
  by (cases x) (auto simp: first_free_def Let_def)

lemma first_free_None_iff: "first_free xs = None \<longleftrightarrow> (\<forall>i < length xs. xs ! i = TAKEN)"
  by (induction xs) (auto simp: nth_Cons TAKEN_FREE_iff(2) split: nat.splits)

lemma first_free_SomeD:
  "first_free xs = Some i \<Longrightarrow> i < length xs \<and> xs ! i = FREE \<and> (\<forall>j < i. xs ! j = TAKEN)"
proof (induction xs arbitrary: i)
  case (Cons x xs)
  then show ?case by (auto simp: nth_Cons TAKEN_FREE_iff(2) split: if_splits nat.splits)
qed simp

lemma scan_free_eq:
  "i + k = length xs \<Longrightarrow>
     scan_free (Inr ()) (Some xs) i k = Inr (map_option (\<lambda>j. j + i) (first_free (drop i xs)))"
proof (induction k arbitrary: i)
  case (Suc k)
  then have "drop i xs = xs ! i # drop (Suc i) xs"
    by (intro Cons_nth_drop_Suc [symmetric]) simp
  with Suc show ?case
    by (cases "xs ! i") (auto simp: option.map_comp o_def)
qed simp

lemma scan_free_arr:
  "has_len a n \<Longrightarrow> scan_free (Inr ()) a 0 n = Inr (first_free (arr a))"
proof -
  assume "has_len a n"
  then obtain xs where xs: "a = Some xs" "length xs = n" by (cases a) auto
  show ?thesis using scan_free_eq [of 0 n xs] xs(2) by (simp add: xs(1) option.map_ident)
qed

lemma first_free_arr_None:
  "has_len a n \<Longrightarrow> first_free (arr a) = None \<longleftrightarrow> taken_of a = {..<n}"
  by (cases a) (auto simp: first_free_None_iff set_eq_iff taken_of_iff)

lemma first_free_arr_Some:
  "has_len a n \<Longrightarrow> first_free (arr a) = Some i \<Longrightarrow>
     i < n \<and> i \<notin> taken_of a \<and> (\<forall>j < i. j \<in> taken_of a)"
  by (cases a) (auto simp: taken_of_iff dest!: first_free_SomeD)

lemma shaped_delay: "shaped s \<Longrightarrow> storage_delay s = Inr ()"
  by (auto simp: storage_delay_def shaped_def params_ok_def)

subsection \<open>The interface of an allocator\<close>

locale allocator =
  fixes ok :: "'s \<Rightarrow> bool"
    and cap :: "'s \<Rightarrow> nat"
    and taken :: "'s \<Rightarrow> nat set"
    and alloc :: "'s \<Rightarrow> (int \<times> 's) res"
    and release :: "int \<Rightarrow> 's \<Rightarrow> 's res"
  assumes taken_bound: "ok s \<Longrightarrow> taken s \<subseteq> {..<cap s}"
    and alloc_full: "ok s \<Longrightarrow> taken s = {..<cap s} \<Longrightarrow> alloc s = Inr (- 1, s)"
    and alloc_free: "ok s \<Longrightarrow> taken s \<noteq> {..<cap s} \<Longrightarrow>
      \<exists>i s'. alloc s = Inr (int i, s') \<and> i < cap s \<and> i \<notin> taken s \<and> (\<forall>j < i. j \<in> taken s) \<and>
             taken s' = insert i (taken s) \<and> cap s' = cap s \<and> ok s'"
    and release_taken: "ok s \<Longrightarrow> i \<in> taken s \<Longrightarrow>
      \<exists>s'. release (int i) s = Inr s' \<and> taken s' = taken s - {i} \<and> cap s' = cap s \<and> ok s'"
begin

lemma alloc_total: "ok s \<Longrightarrow> \<exists>r s'. alloc s = Inr (r, s') \<and> ok s' \<and> cap s' = cap s"
  using alloc_full alloc_free by blast

lemma alloc_fails_iff:
  assumes "ok s" and "alloc s = Inr (r, s')"
  shows "r = - 1 \<longleftrightarrow> card (taken s) = cap s"
proof -
  have "card (taken s) = cap s \<longleftrightarrow> taken s = {..<cap s}"
    using card_subset_eq [OF _ taken_bound [OF assms(1)]] by (metis card_lessThan finite_lessThan)
  moreover have "r = - 1" if "taken s = {..<cap s}"
    using alloc_full [OF assms(1) that] assms(2) by simp
  moreover have "r \<noteq> - 1" if "taken s \<noteq> {..<cap s}"
    using alloc_free [OF assms(1) that] assms(2) by auto
  ultimately show ?thesis by blast
qed

lemma alloc_result:
  assumes "ok s" and "alloc s = Inr (r, s')" and "r \<noteq> - 1"
  obtains i where "r = int i" and "i < cap s" and "i \<notin> taken s" and "\<forall>j < i. j \<in> taken s"
    and "taken s' = insert i (taken s)" and "cap s' = cap s" and "ok s'"
proof -
  have "taken s \<noteq> {..<cap s}"
    using alloc_full [OF assms(1)] assms(2,3) by auto
  from alloc_free [OF assms(1) this] assms(2) that show ?thesis by auto
qed

lemma alloc_card:
  assumes "ok s" and "alloc s = Inr (r, s')" and "r \<noteq> - 1"
  shows "card (taken s') = Suc (card (taken s))"
proof -
  have "finite (taken s)" using taken_bound [OF assms(1)] finite_subset by blast
  with alloc_result [OF assms] show ?thesis by (metis card_insert_disjoint)
qed

lemma alloc_twice_distinct:
  assumes "ok s" and "alloc s = Inr (r, s')" and "alloc s' = Inr (q, s'')"
    and "r \<noteq> - 1" and "q \<noteq> - 1"
  shows "r \<noteq> q"
  using alloc_result [OF assms(1,2,4)] alloc_result [of s' q s''] assms(3,5) by (metis insertI1 of_nat_eq_iff)

text \<open>A released number is the next one handed out, unless a smaller one is free.\<close>

lemma release_alloc:
  assumes "ok s" and "i \<in> taken s" and "release (int i) s = Inr s'" and "alloc s' = Inr (r, s'')"
  shows "0 \<le> r \<and> r \<le> int i"
proof -
  have s': "ok s'" "taken s' = taken s - {i}" "cap s' = cap s"
    using release_taken [OF assms(1,2)] assms(3) by auto
  have "i < cap s" using taken_bound [OF assms(1)] assms(2) by auto
  then have "taken s' \<noteq> {..<cap s'}" using s' by auto
  with alloc_free [OF s'(1)] assms(4) obtain k where "r = int k" "\<forall>j < k. j \<in> taken s'" by auto
  with s'(2) show ?thesis by (metis DiffD2 insertI1 linorder_not_less of_nat_0_le_iff of_nat_le_iff)
qed

lemma alloc_release:
  assumes "ok s" and "alloc s = Inr (r, s')" and "r \<noteq> - 1"
  shows "\<exists>s''. release r s' = Inr s'' \<and> taken s'' = taken s \<and> cap s'' = cap s \<and> ok s''"
proof -
  obtain i where i: "r = int i" "i \<notin> taken s" "taken s' = insert i (taken s)" "cap s' = cap s" "ok s'"
    using alloc_result [OF assms] by blast
  with release_taken [of s' i] show ?thesis by auto
qed

end

subsection \<open>The three allocators\<close>

text \<open>Frame: what an allocator leaves alone is everything but its own allocation states.\<close>

lemma data_block_alloc_eq:
  assumes "shaped s"
  shows "data_block_alloc s = Inr (case first_free (arr (free_blocks s)) of
           None \<Rightarrow> (- 1, s)
         | Some b \<Rightarrow> (int b, s\<lparr>free_blocks := Some ((arr (free_blocks s))[b := TAKEN])\<rparr>))"
proof -
  have len: "has_len (free_blocks s) (n_blocks s)" and small: "n_blocks s < 2 ^ 31"
    using assms by (auto simp: shaped_def params_ok_def)
  show ?thesis
    using first_free_arr_Some [OF len] small
    by (auto simp: data_block_alloc_def shaped_delay [OF assms] scan_free_arr [OF len]
          store_at_arr [OF len] split: option.splits)
qed

lemma inode_alloc_eq:
  assumes "shaped s"
  shows "inode_alloc s = Inr (case first_free (arr (freeinode_ts s)) of
           None \<Rightarrow> (- 1, s)
         | Some i \<Rightarrow> (int i, s\<lparr>freeinode_ts := Some ((arr (freeinode_ts s))[i := TAKEN])\<rparr>))"
proof -
  have len: "has_len (freeinode_ts s) (n_inodes s)" and small: "n_inodes s < 2 ^ 31"
    using assms by (auto simp: shaped_def params_ok_def)
  show ?thesis
    using first_free_arr_Some [OF len] small
    by (auto simp: inode_alloc_def shaped_delay [OF assms] scan_free_arr [OF len]
          store_at_arr [OF len] split: option.splits)
qed

lemma add_to_open_file_table_eq:
  assumes "shaped s"
  shows "add_to_open_file_table inum off s = Inr (case first_free (arr (free_open_file_entries s)) of
           None \<Rightarrow> (- 1, s)
         | Some h \<Rightarrow> (int h, s\<lparr>free_open_file_entries :=
                                    Some ((arr (free_open_file_entries s))[h := TAKEN]),
                                  open_file_table := Some ((arr (open_file_table s))
                                    [h := \<lparr>of_inumber = inum, of_offset = off\<rparr>])\<rparr>))"
proof -
  have len: "has_len (free_open_file_entries s) (n_files s)" "has_len (open_file_table s) (n_files s)"
    using assms by (auto simp: shaped_def)
  show ?thesis
    using first_free_arr_Some [OF len(1)]
    by (auto simp: add_to_open_file_table_def scan_free_arr [OF len(1)]
          store_at_arr [OF len(1)] store_at_arr [OF len(2)] split: option.splits)
qed

lemma data_block_free_eq:
  "shaped s \<Longrightarrow> b < n_blocks s \<Longrightarrow>
     data_block_free (int b) s = Inr (s\<lparr>free_blocks := Some ((arr (free_blocks s))[b := FREE])\<rparr>)"
  by (auto simp: data_block_free_def valid_block_number_def shaped_def store_at_arr)

lemma remove_from_open_file_table_eq:
  "shaped s \<Longrightarrow> h \<in> open_handles s \<Longrightarrow>
     remove_from_open_file_table (int h) s =
       Inr (s\<lparr>free_open_file_entries := Some ((arr (free_open_file_entries s))[h := FREE])\<rparr>)"
  using taken_of_subset [of "free_open_file_entries s" "n_files s"]
  by (auto simp: remove_from_open_file_table_def valid_file_handle_def shaped_def
        store_at_arr [of _ "n_files s"] load_at_arr [of _ "n_files s"] taken_of_iff subset_iff)

lemma inode_delete_eq:
  assumes "shaped s" and "i \<in> live_inodes s"
    and "0 < i_size (inode s i) \<Longrightarrow> \<exists>b < n_blocks s. i_data_block (inode s i) = int b"
  shows "inode_delete (int i) s = Inr (s\<lparr>
           free_blocks := (if 0 < i_size (inode s i)
             then Some ((arr (free_blocks s))[nat (i_data_block (inode s i)) := FREE])
             else free_blocks s),
           freeinode_ts := Some ((arr (freeinode_ts s))[i := FREE])\<rparr>)"
proof -
  have len: "has_len (freeinode_ts s) (n_inodes s)" "has_len (inode_table s) (n_inodes s)"
    using assms(1) by (auto simp: shaped_def)
  have i: "i < n_inodes s" "arr (freeinode_ts s) ! i = TAKEN"
    using assms(2) taken_of_subset [OF len(1)] by (auto simp: taken_of_iff)
  show ?thesis
    using assms(3) data_block_free_eq [OF assms(1)]
    by (auto simp: inode_delete_def valid_inumber_def i load_at_arr [OF len(1)]
          load_at_arr [OF len(2)] store_at_arr [OF len(1)])
qed

lemma shaped_upd_mutex [simp]: "shaped (s\<lparr>g_library_mutex := b\<rparr>) \<longleftrightarrow> shaped s"
  by (simp add: shaped_def)

lemma shaped_lens:
  assumes "shaped s"
  shows "has_len (inode_table s) (n_inodes s)" and "has_len (freeinode_ts s) (n_inodes s)"
    and "has_len (fs_data s) (n_blocks s * bsize s)" and "has_len (free_blocks s) (n_blocks s)"
    and "has_len (open_file_table s) (n_files s)"
    and "has_len (free_open_file_entries s) (n_files s)"
  using assms by (auto simp: shaped_def)

lemma shaped_lengths [simp]:
  assumes "shaped s"
  shows "length (arr (inode_table s)) = n_inodes s" and "length (arr (freeinode_ts s)) = n_inodes s"
    and "length (arr (fs_data s)) = n_blocks s * bsize s"
    and "length (arr (free_blocks s)) = n_blocks s"
    and "length (arr (open_file_table s)) = n_files s"
    and "length (arr (free_open_file_entries s)) = n_files s"
  using shaped_lens [OF assms] by (auto dest!: has_len_arr)

lemma shaped_upds [simp]:
  assumes "shaped s"
  shows "length ts = n_inodes s \<Longrightarrow> shaped (s\<lparr>inode_table := Some ts\<rparr>)"
    and "length fs = n_inodes s \<Longrightarrow> shaped (s\<lparr>freeinode_ts := Some fs\<rparr>)"
    and "length d = n_blocks s * bsize s \<Longrightarrow> shaped (s\<lparr>fs_data := Some d\<rparr>)"
    and "length fs' = n_blocks s \<Longrightarrow> shaped (s\<lparr>free_blocks := Some fs'\<rparr>)"
    and "length os = n_files s \<Longrightarrow> shaped (s\<lparr>open_file_table := Some os\<rparr>)"
    and "length fs'' = n_files s \<Longrightarrow> shaped (s\<lparr>free_open_file_entries := Some fs''\<rparr>)"
  using assms by (auto simp: shaped_def)

interpretation blocks: allocator shaped n_blocks used_blocks data_block_alloc data_block_free
proof unfold_locales
  fix s assume s: "shaped s"
  note len = shaped_lens(4) [OF s]
  show "used_blocks s \<subseteq> {..<n_blocks s}" by (rule taken_of_subset [OF len])
  show "data_block_alloc s = Inr (- 1, s)" if "used_blocks s = {..<n_blocks s}"
    using first_free_arr_None [OF len] that by (simp add: data_block_alloc_eq [OF s])
  show "\<exists>i s'. data_block_alloc s = Inr (int i, s') \<and> i < n_blocks s \<and> i \<notin> used_blocks s \<and>
      (\<forall>j < i. j \<in> used_blocks s) \<and> used_blocks s' = insert i (used_blocks s) \<and>
      n_blocks s' = n_blocks s \<and> shaped s'"
    if full: "used_blocks s \<noteq> {..<n_blocks s}"
  proof -
    from full first_free_arr_None [OF len] obtain b where b: "first_free (arr (free_blocks s)) = Some b"
      by auto
    from first_free_arr_Some [OF len b] b s len show ?thesis by (simp add: data_block_alloc_eq [OF s])
  qed
  show "\<exists>s'. data_block_free (int i) s = Inr s' \<and> used_blocks s' = used_blocks s - {i} \<and>
      n_blocks s' = n_blocks s \<and> shaped s'" if "i \<in> used_blocks s" for i
    using taken_of_subset [OF len] that s len by (auto simp: data_block_free_eq)
qed

interpretation handles: allocator shaped n_files open_handles "add_to_open_file_table inum off"
  remove_from_open_file_table for inum off
proof unfold_locales
  fix s assume s: "shaped s"
  note len = shaped_lens(6) [OF s] shaped_lens(5) [OF s]
  let ?alloc = "add_to_open_file_table inum off"
  show "open_handles s \<subseteq> {..<n_files s}" by (rule taken_of_subset [OF len(1)])
  show "?alloc s = Inr (- 1, s)" if "open_handles s = {..<n_files s}"
    using first_free_arr_None [OF len(1)] that by (simp add: add_to_open_file_table_eq [OF s])
  show "\<exists>i s'. ?alloc s = Inr (int i, s') \<and> i < n_files s \<and> i \<notin> open_handles s \<and>
      (\<forall>j < i. j \<in> open_handles s) \<and> open_handles s' = insert i (open_handles s) \<and>
      n_files s' = n_files s \<and> shaped s'"
    if full: "open_handles s \<noteq> {..<n_files s}"
  proof -
    from full first_free_arr_None [OF len(1)]
    obtain h where h: "first_free (arr (free_open_file_entries s)) = Some h" by auto
    from first_free_arr_Some [OF len(1) h] h s len show ?thesis
      by (auto simp: add_to_open_file_table_eq [OF s] shaped_def dest!: has_len_arr)
  qed
  show "\<exists>s'. remove_from_open_file_table (int i) s = Inr s' \<and> open_handles s' = open_handles s - {i} \<and>
      n_files s' = n_files s \<and> shaped s'" if "i \<in> open_handles s" for i
    using that s len by (auto simp: remove_from_open_file_table_eq)
qed

text \<open>Deleting an inode also frees its block, so the block number has to make sense.\<close>

definition inode_blocks_ok :: "fs_state \<Rightarrow> bool" where
  "inode_blocks_ok s \<longleftrightarrow> shaped s \<and>
     (\<forall>i \<in> live_inodes s. 0 < i_size (inode s i) \<longrightarrow> (\<exists>b < n_blocks s. i_data_block (inode s i) = int b))"

definition fresh_file :: inode_t where
  "fresh_file = \<lparr>i_node_type = T_FILE, i_size = 0, i_data_block = - 1\<rparr>"

lemma inode_upd_all [simp]:
  "r\<lparr>i_node_type := t, i_size := n, i_data_block := b\<rparr> =
     \<lparr>i_node_type = t, i_size = n, i_data_block = b\<rparr>"
  for r :: inode_t
  by (cases r) simp

lemma inode_create_file_eq:
  assumes "shaped s"
  shows "inode_create T_FILE s = Inr (case first_free (arr (freeinode_ts s)) of
           None \<Rightarrow> (- 1, s)
         | Some i \<Rightarrow> (int i, s\<lparr>freeinode_ts := Some ((arr (freeinode_ts s))[i := TAKEN]),
                               inode_table := Some ((arr (inode_table s))[i := fresh_file])\<rparr>))"
proof (cases "first_free (arr (freeinode_ts s))")
  case None
  then show ?thesis by (simp add: inode_create_def inode_alloc_eq [OF assms])
next
  case (Some i)
  note len = shaped_lens(1) [OF assms] has_len_arr [OF shaped_lens(1) [OF assms]]
  have i: "i < n_inodes s"
    using first_free_arr_Some [OF shaped_lens(2) [OF assms] Some] by simp
  have len': "has_len (Some ((arr (inode_table s))[i := v])) (n_inodes s)" for v
    using len by simp
  show ?thesis
    using i len(2)
    by (simp add: inode_create_def inode_alloc_eq [OF assms] Some load_inode_def store_inode_def
          load_at_arr [OF len(1)] store_at_arr [OF len(1)] load_at_arr [OF len'] store_at_arr [OF len']
          fresh_file_def Let_def)
qed

interpretation inodes: allocator inode_blocks_ok n_inodes live_inodes "inode_create T_FILE" inode_delete
proof unfold_locales
  fix s assume ok: "inode_blocks_ok s"
  then have s: "shaped s" by (simp add: inode_blocks_ok_def)
  note len = shaped_lens(2) [OF s] and tab = has_len_arr [OF shaped_lens(1) [OF s]]
  show "live_inodes s \<subseteq> {..<n_inodes s}" by (rule taken_of_subset [OF len])
  show "inode_create T_FILE s = Inr (- 1, s)" if "live_inodes s = {..<n_inodes s}"
    using first_free_arr_None [OF len] that by (simp add: inode_create_file_eq [OF s])
  show "\<exists>i s'. inode_create T_FILE s = Inr (int i, s') \<and> i < n_inodes s \<and> i \<notin> live_inodes s \<and>
      (\<forall>j < i. j \<in> live_inodes s) \<and> live_inodes s' = insert i (live_inodes s) \<and>
      n_inodes s' = n_inodes s \<and> inode_blocks_ok s'"
    if full: "live_inodes s \<noteq> {..<n_inodes s}"
  proof -
    from full first_free_arr_None [OF len]
    obtain i where i: "first_free (arr (freeinode_ts s)) = Some i" by auto
    let ?s' = "s\<lparr>freeinode_ts := Some ((arr (freeinode_ts s))[i := TAKEN]),
                  inode_table := Some ((arr (inode_table s))[i := fresh_file])\<rparr>"
    note free = first_free_arr_Some [OF len i]
    have "shaped ?s'"
      using s tab has_len_arr [OF len] by (simp add: shaped_def)
    then have "inode_blocks_ok ?s'"
      using ok free len tab by (auto simp: inode_blocks_ok_def fresh_file_def nth_list_update)
    with free i len show ?thesis by (simp add: inode_create_file_eq [OF s])
  qed
  show "\<exists>s'. inode_delete (int i) s = Inr s' \<and> live_inodes s' = live_inodes s - {i} \<and>
      n_inodes s' = n_inodes s \<and> inode_blocks_ok s'" if i: "i \<in> live_inodes s" for i
  proof -
    have "0 < i_size (inode s i) \<Longrightarrow> \<exists>b < n_blocks s. i_data_block (inode s i) = int b"
      using ok i by (auto simp: inode_blocks_ok_def)
    note del = inode_delete_eq [OF s i this]
    then obtain s' where s': "inode_delete (int i) s = Inr s'" by blast
    have "shaped s'"
      using s s' has_len_arr [OF len] has_len_arr [OF shaped_lens(4) [OF s]]
      by (auto simp: del shaped_def)
    with s' ok len show ?thesis by (auto simp: del inode_blocks_ok_def)
  qed
qed

end
