(* ===== verification/TfsDir.thy ===== *)
theory TfsDir
  imports TfsAlloc
begin

text \<open>
  Directories: a directory block read as a list of entries, the three directory loops of
  \<open>state.c\<close> as functions of that list, the map from names to inode numbers it stands for,
  and the contract of a directory as the locale \<open>directory\<close>, interpreted on
  \<open>find_in_dir\<close>, \<open>add_dir_entry\<close> and \<open>clear_dir_entry\<close> of the root directory.
\<close>

lemmas layout = sizeof_dir_entry_def MAX_FILE_NAME_def d_name_at_def d_inumber_at_def
  max_dir_entries_def

subsection \<open>Blocks and entries\<close>

definition block :: "fs_state \<Rightarrow> nat \<Rightarrow> byte list" where
  "block s b = bytes_at (b * bsize s) (bsize s) (arr (fs_data s))"

type_synonym dirent = "byte list \<times> int"

definition entry :: "byte list \<Rightarrow> nat \<Rightarrow> dirent" where
  "entry blk i = (bytes_at (i * 44) 40 blk, bytes_int (bytes_at (i * 44 + 40) 4 blk))"

definition entries :: "nat \<Rightarrow> byte list \<Rightarrow> dirent list" where
  "entries n blk = map (entry blk) [0..<n]"

lemma length_entries [simp]: "length (entries n blk) = n"
  by (simp add: entries_def)

lemma nth_entries [simp]: "i < n \<Longrightarrow> entries n blk ! i = entry blk i"
  by (simp add: entries_def)

lemma drop_entries: "i < n \<Longrightarrow> drop i (entries n blk) = entry blk i # drop (Suc i) (entries n blk)"
  by (simp add: Cons_nth_drop_Suc [symmetric])

lemma block_fits: "b < n \<Longrightarrow> b * m + m \<le> n * (m::nat)"
  by (metis Suc_leI add.commute mult_Suc mult_le_mono1)

lemma block_in_data:
  assumes "shaped s" and "b < n_blocks s"
  shows "b * bsize s + bsize s \<le> length (arr (fs_data s))"
  using block_fits [OF assms(2)] has_len_arr [OF shaped_lens(3) [OF assms(1)]] by simp

lemma length_block: "shaped s \<Longrightarrow> b < n_blocks s \<Longrightarrow> length (block s b) = bsize s"
  using block_in_data [of s b] by (simp add: block_def)

lemma blocks_apart:
  "b \<noteq> b' \<Longrightarrow> b * m + m \<le> b' * m \<or> b' * m + m \<le> b * (m::nat)"
  by (metis Suc_leI add.commute linorder_neqE_nat mult_Suc mult_le_mono1)

text \<open>A write inside one block changes that block only.\<close>

lemma block_overwrite_same:
  assumes "shaped s" and "b < n_blocks s" and "off + length bs \<le> bsize s"
  shows "block (s\<lparr>fs_data := Some (overwrite (b * bsize s + off) bs (arr (fs_data s)))\<rparr>) b
           = overwrite off bs (block s b)"
  using block_in_data [OF assms(1,2)] assms(3) by (simp add: block_def bytes_at_overwrite_inside)

lemma block_overwrite_other:
  assumes "shaped s" and "b < n_blocks s" and "off + length bs \<le> bsize s"
    and "b' < n_blocks s" and "b' \<noteq> b"
  shows "block (s\<lparr>fs_data := Some (overwrite (b * bsize s + off) bs (arr (fs_data s)))\<rparr>) b'
           = block s b'"
  using block_in_data [OF assms(1,2)] block_in_data [OF assms(1,4)] assms(3)
    blocks_apart [OF assms(5), of "bsize s"]
  by (auto simp: block_def intro!: bytes_at_overwrite_disjoint)

lemma block_frame [simp]:
  "block (s\<lparr>inode_table := a\<rparr>) b = block s b"
  "block (s\<lparr>freeinode_ts := f\<rparr>) b = block s b"
  "block (s\<lparr>free_blocks := f\<rparr>) b = block s b"
  "block (s\<lparr>open_file_table := o'\<rparr>) b = block s b"
  "block (s\<lparr>free_open_file_entries := f\<rparr>) b = block s b"
  "block (s\<lparr>g_library_mutex := l\<rparr>) b = block s b"
  by (simp_all add: block_def)

subsection \<open>The loops as functions of the entry list\<close>

fun lookup_entry :: "dirent list \<Rightarrow> byte list \<Rightarrow> int" where
  "lookup_entry [] nm = - 1"
| "lookup_entry ((b, i) # es) nm = (if i \<noteq> - 1 \<and> cstr b = nm then i else lookup_entry es nm)"

fun free_entry :: "dirent list \<Rightarrow> nat option" where
  "free_entry [] = None"
| "free_entry ((b, i) # es) = (if i = - 1 then Some 0 else map_option Suc (free_entry es))"

fun named_entry :: "dirent list \<Rightarrow> byte list \<Rightarrow> nat option" where
  "named_entry [] nm = None"
| "named_entry ((b, i) # es) nm = (if cstr b = nm then Some 0 else map_option Suc (named_entry es nm))"

definition dirent_bytes :: "byte list \<Rightarrow> int \<Rightarrow> byte list" where
  "dirent_bytes nm i = nm @ replicate (40 - length nm) 0 @ int_bytes i"

lemma cstr_take_terminated: "terminated (take n m) \<Longrightarrow> cstr m = cstr (take n m)"
  by (metis append_take_drop_id cstr_append)

lemma entry_at:
  assumes "shaped s" and "b < n_blocks s" and "i < max_dir_entries s"
  shows "load_inumber s (d_inumber_at (b * bsize s) i) = Inr (snd (entry (block s b) i))"
    and "mem_from (fs_data s) (d_name_at (b * bsize s) i) =
           Inr (drop (b * bsize s + i * 44) (arr (fs_data s)))"
    and "take 40 (drop (b * bsize s + i * 44) (arr (fs_data s))) = fst (entry (block s b) i)"
    and "b * bsize s + i * 44 + 44 \<le> length (arr (fs_data s))"
    and "i * 44 + 44 \<le> bsize s"
proof -
  show i: "i * 44 + 44 \<le> bsize s"
    using assms(3) block_fits [of i "bsize s div 44" 44] div_times_less_eq_dividend [of "bsize s" 44]
    by (simp add: layout)
  note fits = block_in_data [OF assms(1,2)] and data = has_len_arr [OF shaped_lens(3) [OF assms(1)]]
  show le: "b * bsize s + i * 44 + 44 \<le> length (arr (fs_data s))" using fits i by linarith
  have "b * bsize s + i * 44 + 40 + 4 \<le> length (arr (fs_data s))" using le by simp
  then have "mem_load (fs_data s) (b * bsize s + i * 44 + 40) 4
      = Inr (bytes_at (b * bsize s + i * 44 + 40) 4 (arr (fs_data s)))"
    by (subst conjunct1 [OF data]) (rule mem_load_Some)
  moreover have "bytes_at (i * 44 + 40) 4 (block s b)
      = bytes_at (b * bsize s + i * 44 + 40) 4 (arr (fs_data s))"
    using i fits by (simp add: block_def bytes_at_bytes_at add.assoc)
  ultimately show "load_inumber s (d_inumber_at (b * bsize s) i) = Inr (snd (entry (block s b) i))"
    by (simp add: load_inumber_def layout entry_def)
  show "mem_from (fs_data s) (d_name_at (b * bsize s) i) =
           Inr (drop (b * bsize s + i * 44) (arr (fs_data s)))"
    by (subst conjunct1 [OF data]) (use le in \<open>simp add: layout\<close>)
  show "take 40 (drop (b * bsize s + i * 44) (arr (fs_data s))) = fst (entry (block s b) i)"
    using i fits by (simp add: entry_def block_def bytes_at_bytes_at) (simp add: bytes_at_def)
qed

lemma find_dir_loop_eq:
  assumes "shaped s" and "b < n_blocks s" and "terminated nm"
    and "\<And>e. e \<in> set (entries (max_dir_entries s) (block s b)) \<Longrightarrow> snd e \<noteq> - 1 \<Longrightarrow> terminated (fst e)"
    and "i + k = max_dir_entries s"
  shows "find_dir_loop (b * bsize s) (Some nm) i k s =
           Inr (lookup_entry (drop i (entries (max_dir_entries s) (block s b))) (cstr nm))"
  using assms(5)
proof (induction k arbitrary: i)
  case (Suc k)
  let ?m = "drop (b * bsize s + i * 44) (arr (fs_data s))"
  from Suc.prems have i: "i < max_dir_entries s" by simp
  note at = entry_at [OF assms(1,2) i]
  have rest: "find_dir_loop (b * bsize s) (Some nm) (Suc i) k s =
      Inr (lookup_entry (drop (Suc i) (entries (max_dir_entries s) (block s b))) (cstr nm))"
    using Suc by simp
  have mem: "entry (block s b) i \<in> set (entries (max_dir_entries s) (block s b))"
    using i by (auto simp: entries_def)
  obtain nb x where e: "entry (block s b) i = (nb, x)" by force
  show ?case
  proof (cases "x = - 1")
    case True
    then show ?thesis using rest i e by (simp add: at(1) drop_entries)
  next
    case False
    then have "terminated (take 40 ?m)" using assms(4) [OF mem] e by (simp add: at(3))
    moreover from this obtain r where "c_strncmp ?m nm 40 = Inr r" "r = 0 \<longleftrightarrow> cstr ?m = cstr nm"
      using c_strncmp_eq [OF _ assms(3)] by blast
    ultimately show ?thesis using rest i e False at(3) cstr_take_terminated [of 40 ?m]
      by (simp add: at(1,2) drop_entries deref_str_def MAX_FILE_NAME_def)
  qed
qed simp

text \<open>Adjacent writes are one write.\<close>

lemma overwrite_append:
  assumes "off + length xs + length ys \<le> length d"
  shows "overwrite off xs (overwrite (off + length xs) ys d) = overwrite off (xs @ ys) d"
    and "overwrite (off + length xs) ys (overwrite off xs d) = overwrite off (xs @ ys) d"
  using assms by (intro nth_equalityI; auto simp: nth_overwrite nth_append)+

lemma store_bytes_arr:
  assumes "shaped s" and "a + length bs \<le> length (arr (fs_data s))"
  shows "store_bytes a bs s = Inr (s\<lparr>fs_data := Some (overwrite a bs (arr (fs_data s)))\<rparr>)"
  using assms(2) unfolding store_bytes_def
  by (subst conjunct1 [OF has_len_arr [OF shaped_lens(3) [OF assms(1)]]]) simp

lemma store_inumber_eq: "store_inumber a i s = store_bytes a (int_bytes i) s"
  by (simp add: store_inumber_def store_bytes_def)

lemma add_dir_loop_eq:
  assumes "shaped s" and "b < n_blocks s" and "terminated nm" and "length (cstr nm) < 40"
    and "i + k = max_dir_entries s"
  shows "add_dir_loop (b * bsize s) (Some nm) x i k s =
      Inr (case free_entry (drop i (entries (max_dir_entries s) (block s b))) of
             None \<Rightarrow> (- 1, s)
           | Some j \<Rightarrow> (0, s\<lparr>fs_data := Some (overwrite (b * bsize s + (j + i) * 44)
                                  (dirent_bytes (cstr nm) x) (arr (fs_data s)))\<rparr>))"
  using assms(5)
proof (induction k arbitrary: i)
  case (Suc k)
  from Suc.prems have i: "i < max_dir_entries s" by simp
  note at = entry_at [OF assms(1,2) i]
  have rest: "add_dir_loop (b * bsize s) (Some nm) x (Suc i) k s =
      Inr (case free_entry (drop (Suc i) (entries (max_dir_entries s) (block s b))) of
             None \<Rightarrow> (- 1, s)
           | Some j \<Rightarrow> (0, s\<lparr>fs_data := Some (overwrite (b * bsize s + (j + Suc i) * 44)
                                  (dirent_bytes (cstr nm) x) (arr (fs_data s)))\<rparr>))"
    using Suc by simp
  obtain nb y where e: "entry (block s b) i = (nb, y)" by force
  show ?case
  proof (cases "y = - 1")
    case False
    then show ?thesis using rest i e by (simp add: at(1) drop_entries add.assoc split: option.splits)
  next
    case True
    let ?p = "b * bsize s + i * 44" and ?d = "arr (fs_data s)"
    let ?nm39 = "cstr nm @ replicate (39 - length (cstr nm)) 0"
    have cpy: "c_strncpy nm 39 = Inr ?nm39"
    proof (cases "length (cstr nm) = 39")
      case True
      then show ?thesis by (simp add: c_strncpy_long)
    next
      case False
      then show ?thesis using assms(3,4) by (simp add: c_strncpy_terminated)
    qed
    have bytes: "dirent_bytes (cstr nm) x = (?nm39 @ [0]) @ int_bytes x"
    proof -
      have "40 - length (cstr nm) = Suc (39 - length (cstr nm))" using assms(4) by simp
      then show ?thesis by (simp add: dirent_bytes_def replicate_append_same)
    qed
    have "overwrite (?p + 39) [0] (overwrite ?p ?nm39 (overwrite (?p + 40) (int_bytes x) ?d))
        = overwrite ?p (dirent_bytes (cstr nm) x) ?d"
      using overwrite_append(2) [of ?p ?nm39 "[0]" "overwrite (?p + 40) (int_bytes x) ?d"]
        overwrite_append(1) [of ?p "?nm39 @ [0]" "int_bytes x" ?d] at(4) assms(4)
      unfolding bytes by simp
    then show ?thesis using i e True at(4) assms(1,4) cpy
      by (simp add: at(1) drop_entries deref_str_def) (simp add: store_inumber_eq store_bytes_arr layout)
  qed
qed simp

text \<open>
  Clearing a name that is there. Entries are compared without a look at their inode number,
  so only the entries up to the match have to hold strings.
\<close>

lemma clear_dir_loop_eq:
  assumes "shaped s" and "b < n_blocks s" and "terminated nm"
    and "i + k = max_dir_entries s"
    and "named_entry (drop i (entries (max_dir_entries s) (block s b))) (cstr nm) = Some j"
    and "\<And>e. e \<in> set (take (Suc j) (drop i (entries (max_dir_entries s) (block s b)))) \<Longrightarrow>
           terminated (fst e)"
  shows "clear_dir_loop (b * bsize s) (Some nm) i k s =
      Inr (0, s\<lparr>fs_data := Some (overwrite (b * bsize s + (j + i) * 44)
                                  (dirent_bytes [] (- 1)) (arr (fs_data s)))\<rparr>)"
  using assms(4-6)
proof (induction k arbitrary: i j)
  case (Suc k)
  let ?p = "b * bsize s + i * 44" and ?d = "arr (fs_data s)"
  from Suc.prems have i: "i < max_dir_entries s" by simp
  note at = entry_at [OF assms(1,2) i]
  obtain nb y where e: "entry (block s b) i = (nb, y)" by force
  have "terminated (fst (entry (block s b) i))"
    using Suc.prems(3) i by (simp add: drop_entries)
  then have t: "terminated (take 40 (drop ?p ?d))" by (simp add: at(3))
  then have "terminated (drop ?p ?d)" by (rule in_set_takeD)
  from c_strcmp_terminated [OF this assms(3)] obtain r
    where r: "c_strcmp (drop ?p ?d) nm = Inr r" "r = 0 \<longleftrightarrow> cstr (drop ?p ?d) = cstr nm" by blast
  have name: "cstr (drop ?p ?d) = cstr nb"
    using cstr_take_terminated [OF t] at(3) e by simp
  show ?case
  proof (cases "cstr nb = cstr nm")
    case False
    then obtain j' where j': "j = Suc j'"
      "named_entry (drop (Suc i) (entries (max_dir_entries s) (block s b))) (cstr nm) = Some j'"
      using Suc.prems(2) i e by (auto simp: drop_entries)
    with Suc.IH [OF _ j'(2)] Suc.prems(1,3) i False r name show ?thesis
      by (simp add: at(2) drop_entries deref_str_def add.assoc)
  next
    case True
    have "overwrite ?p (replicate 40 0) (overwrite (?p + 40) (int_bytes (- 1)) ?d)
        = overwrite ?p (dirent_bytes [] (- 1)) ?d"
      using overwrite_append(1) [of ?p "replicate 40 0" "int_bytes (- 1)" ?d] at(4)
      by (simp add: dirent_bytes_def)
    moreover have "j = 0" using Suc.prems(2) i e True by (simp add: drop_entries)
    ultimately show ?thesis using r name True at(4) assms(1)
      by (simp add: at(2) deref_str_def) (simp add: store_inumber_eq store_bytes_arr layout)
  qed
qed simp

text \<open>Writing the bytes of an entry replaces that entry of the list.\<close>

lemma length_dirent_bytes [simp]: "length nm \<le> 40 \<Longrightarrow> length (dirent_bytes nm i) = 44"
  by (simp add: dirent_bytes_def)

lemma entries_overwrite:
  assumes "length nm \<le> 40" and "j < n" and "n * 44 \<le> length blk"
  shows "entries n (overwrite (j * 44) (dirent_bytes nm x) blk) =
           (entries n blk)[j := (nm @ replicate (40 - length nm) 0, bytes_int (int_bytes x))]"
proof (rule nth_equalityI)
  show "length (entries n (overwrite (j * 44) (dirent_bytes nm x) blk)) =
      length ((entries n blk)[j := (nm @ replicate (40 - length nm) 0, bytes_int (int_bytes x))])"
    by simp
  fix i assume "i < length (entries n (overwrite (j * 44) (dirent_bytes nm x) blk))"
  then have i: "i < n" by simp
  let ?e = "dirent_bytes nm x" and ?new = "overwrite (j * 44) (dirent_bytes nm x) blk"
  have fit: "j * 44 + 44 \<le> length blk" "i * 44 + 44 \<le> length blk"
    using assms(3) block_fits [OF assms(2), of 44] block_fits [OF i, of 44] by linarith+
  have whole: "bytes_at (j * 44) 44 ?new = ?e"
    using bytes_at_overwrite_same [of "j * 44" ?e blk] fit assms(1) by simp
  have len: "length ?new = length blk" using fit assms(1) by simp
  show "entries n ?new ! i =
      (entries n blk)[j := (nm @ replicate (40 - length nm) 0, bytes_int (int_bytes x))] ! i"
  proof (cases "i = j")
    case True
    have "bytes_at (j * 44) 40 ?new = take 40 ?e"
      using take_bytes_at [of 40 44 "j * 44" ?new] by (simp add: whole)
    moreover have "bytes_at (j * 44 + 40) 4 ?new = drop 40 ?e"
    proof -
      have "bytes_at (j * 44 + 40) 4 ?new = bytes_at 40 4 (bytes_at (j * 44) 44 ?new)"
        using fit len by (simp add: bytes_at_bytes_at)
      then show ?thesis using whole assms(1) by (simp add: bytes_at_def)
    qed
    ultimately show ?thesis using True i assms(1) by (simp add: entry_def dirent_bytes_def)
  next
    case False
    have apart: "i * 44 + 44 \<le> j * 44 \<or> j * 44 + 44 \<le> i * 44" using blocks_apart [OF False] by simp
    have "bytes_at (i * 44) 40 ?new = bytes_at (i * 44) 40 blk"
      using apart fit assms(1) by (intro bytes_at_overwrite_disjoint) auto
    moreover have "bytes_at (i * 44 + 40) 4 ?new = bytes_at (i * 44 + 40) 4 blk"
      using apart fit assms(1) by (intro bytes_at_overwrite_disjoint) auto
    ultimately show ?thesis using i False by (simp add: entry_def)
  qed
qed

subsection \<open>The name map\<close>

definition used_entries :: "dirent list \<Rightarrow> dirent list" where
  "used_entries es = filter (\<lambda>e. snd e \<noteq> - 1) es"

definition assoc :: "dirent list \<Rightarrow> (byte list \<times> nat) list" where
  "assoc es = map (\<lambda>(b, i). (cstr b, nat i)) (used_entries es)"

text \<open>
  A well-formed entry: its name is terminated, and empty exactly if the entry is free. A
  well-formed entry list is well-formed entries up to some point and free entries with
  arbitrary names from there on (those no name was ever written to: \<open>inode_create\<close> leaves
  them as \<open>malloc\<close> returned them), and no name is in use twice.
\<close>

definition entry_ok :: "dirent \<Rightarrow> bool" where
  "entry_ok e \<longleftrightarrow> terminated (fst e) \<and> (cstr (fst e) = [] \<longleftrightarrow> snd e = - 1) \<and> - 1 \<le> snd e"

fun touched_ok :: "dirent list \<Rightarrow> bool" where
  "touched_ok [] \<longleftrightarrow> True"
| "touched_ok (e # es) \<longleftrightarrow>
     entry_ok e \<and> touched_ok es \<or> snd e = - 1 \<and> (\<forall>e' \<in> set es. snd e' = - 1)"

definition entries_ok :: "dirent list \<Rightarrow> bool" where
  "entries_ok es \<longleftrightarrow> touched_ok es \<and> distinct (map fst (assoc es))"

lemma touched_ok_free: "\<forall>e \<in> set es. snd e = - 1 \<Longrightarrow> touched_ok es"
  by (cases es) simp_all

lemma touched_ok_used: "touched_ok es \<Longrightarrow> e \<in> set es \<Longrightarrow> snd e \<noteq> - 1 \<Longrightarrow> entry_ok e"
  by (induction es) auto

lemma touched_ok_clear: "touched_ok es \<Longrightarrow> entry_ok (b, - 1) \<Longrightarrow> touched_ok (es[j := (b, - 1)])"
proof (induction es arbitrary: j)
  case (Cons e es)
  then show ?case
    by (cases j) (auto dest: set_update_subset_insert [THEN subsetD] intro: touched_ok_free)
qed simp

lemma touched_ok_add:
  "touched_ok es \<Longrightarrow> free_entry es = Some j \<Longrightarrow> entry_ok e \<Longrightarrow> touched_ok (es[j := e])"
proof (induction es arbitrary: j)
  case (Cons e' es)
  obtain b i where e': "e' = (b, i)" by force
  show ?case
  proof (cases "i = - 1")
    case True
    then show ?thesis using Cons.prems e' by (auto intro: touched_ok_free)
  next
    case False
    then show ?thesis using Cons e' by auto
  qed
qed simp

lemma assoc_Nil [simp]: "assoc [] = []"
  by (simp add: assoc_def used_entries_def)

lemma assoc_Cons [simp]:
  "assoc ((b, i) # es) = (if i = - 1 then assoc es else (cstr b, nat i) # assoc es)"
  by (simp add: assoc_def used_entries_def)

lemma assoc_append [simp]: "assoc (xs @ ys) = assoc xs @ assoc ys"
  by (simp add: assoc_def used_entries_def)

lemma assoc_replace:
  "j < length es \<Longrightarrow> assoc es = assoc (take j es) @ assoc [es ! j] @ assoc (drop (Suc j) es)"
  by (metis append_Cons append_Nil assoc_append id_take_nth_drop)

lemma assoc_update:
  "j < length es \<Longrightarrow> assoc (es[j := e]) = assoc (take j es) @ assoc [e] @ assoc (drop (Suc j) es)"
  by (simp only: upd_conv_take_nth_drop assoc_append [symmetric] append_Cons append_Nil)

lemma lookup_entry_assoc:
  "(\<And>e. e \<in> set es \<Longrightarrow> snd e \<noteq> - 1 \<Longrightarrow> entry_ok e) \<Longrightarrow>
     lookup_entry es nm = (case map_of (assoc es) nm of None \<Rightarrow> - 1 | Some i \<Rightarrow> int i)"
proof (induction es nm rule: lookup_entry.induct)
  case (2 b i es nm)
  have "int (nat i) = i" if "i \<noteq> - 1" using 2(2) [of "(b, i)"] that by (simp add: entry_ok_def)
  with 2 show ?case by auto
qed simp

lemma free_entry_SomeD:
  "free_entry es = Some j \<Longrightarrow> j < length es \<and> snd (es ! j) = - 1"
  by (induction es arbitrary: j) (auto split: if_splits)

lemma free_entry_None_iff: "free_entry es = None \<longleftrightarrow> (\<forall>e \<in> set es. snd e \<noteq> - 1)"
  by (induction es rule: free_entry.induct) auto

lemma named_entry_SomeD:
  "named_entry es nm = Some j \<Longrightarrow> j < length es \<and> cstr (fst (es ! j)) = nm"
  by (induction es arbitrary: j) (auto split: if_splits)

text \<open>A name in use is found at a used entry, and every entry up to there is well formed.\<close>

lemma named_entry_assoc:
  assumes "touched_ok es" and "nm \<noteq> []" and "map_of (assoc es) nm \<noteq> None"
  shows "\<exists>j. named_entry es nm = Some j \<and> snd (es ! j) \<noteq> - 1 \<and>
           (\<forall>e \<in> set (take (Suc j) es). terminated (fst e))"
  using assms
proof (induction es nm rule: named_entry.induct)
  case (2 b i es nm)
  show ?case
  proof (cases "entry_ok (b, i) \<and> touched_ok es")
    case True
    then show ?thesis using 2 by (cases "cstr b = nm") (auto simp: entry_ok_def split: if_splits)
  next
    case False
    then have "i = - 1" "\<forall>e \<in> set es. snd e = - 1" using 2(2) by auto
    then have "assoc ((b, i) # es) = []" by (auto simp: assoc_def used_entries_def filter_empty_conv)
    then show ?thesis using 2(4) by simp
  qed
qed simp

lemma entries_ok_add:
  assumes "entries_ok es" and "free_entry es = Some j"
    and "entry_ok (b, i)" and "i \<noteq> - 1" and "map_of (assoc es) (cstr b) = None"
  shows "entries_ok (es[j := (b, i)])"
    and "map_of (assoc (es[j := (b, i)])) = (map_of (assoc es))(cstr b \<mapsto> nat i)"
proof -
  have j: "j < length es" "snd (es ! j) = - 1" using free_entry_SomeD [OF assms(2)] by simp_all
  obtain b0 where b0: "es ! j = (b0, - 1)" using j(2) by (metis prod.collapse)
  let ?A = "assoc (take j es)" and ?B = "assoc (drop (Suc j) es)"
  have old: "assoc es = ?A @ ?B" using assoc_replace [OF j(1)] b0 by simp
  have new: "assoc (es[j := (b, i)]) = ?A @ (cstr b, nat i) # ?B"
    using assoc_update [OF j(1)] assms(4) by simp
  have fresh: "cstr b \<notin> fst ` set ?A" "cstr b \<notin> fst ` set ?B"
    using assms(5) by (auto simp: map_of_eq_None_iff old)
  show "entries_ok (es[j := (b, i)])"
    using assms(1) fresh touched_ok_add [OF _ assms(2,3)] by (auto simp: entries_ok_def old new)
  have "cstr b \<notin> dom (map_of ?A)" using fresh(1) by (simp add: dom_map_of_conv_image_fst)
  then show "map_of (assoc (es[j := (b, i)])) = (map_of (assoc es))(cstr b \<mapsto> nat i)"
    by (simp add: old new map_add_upd_left)
qed

lemma entries_ok_clear:
  assumes "entries_ok es" and "j < length es" and "cstr (fst (es ! j)) = nm" and "nm \<noteq> []"
    and "entry_ok (b, - 1)" and "snd (es ! j) \<noteq> - 1"
  shows "entries_ok (es[j := (b, - 1)])"
    and "map_of (assoc (es[j := (b, - 1)])) = (map_of (assoc es))(nm := None)"
proof -
  obtain b0 i0 where b0: "es ! j = (b0, i0)" by force
  have i0: "i0 \<noteq> - 1" using assms(6) b0 by simp
  let ?A = "assoc (take j es)" and ?B = "assoc (drop (Suc j) es)"
  have old: "assoc es = ?A @ (nm, nat i0) # ?B" using assoc_replace [OF assms(2)] b0 i0 assms(3) by simp
  have new: "assoc (es[j := (b, - 1)]) = ?A @ ?B" using assoc_update [OF assms(2)] by simp
  have dist: "distinct (map fst (?A @ (nm, nat i0) # ?B))"
    using assms(1) by (simp add: entries_ok_def old)
  show "entries_ok (es[j := (b, - 1)])"
    using assms(1) dist touched_ok_clear [OF _ assms(5)] by (auto simp: entries_ok_def old new)
  have none: "map_of ?A nm = None" "map_of ?B nm = None"
    using dist by (auto simp: map_of_eq_None_iff)
  show "map_of (assoc (es[j := (b, - 1)])) = (map_of (assoc es))(nm := None)"
    using none by (auto simp: old new map_add_def fun_eq_iff split: option.splits)
qed

subsection \<open>The root directory\<close>

definition root_block :: "fs_state \<Rightarrow> nat" where
  "root_block s = nat (i_data_block (inode s 0))"

definition dirents :: "fs_state \<Rightarrow> dirent list" where
  "dirents s = entries (max_dir_entries s) (block s (root_block s))"

lemma length_dirents [simp]: "length (dirents s) = max_dir_entries s"
  by (simp add: dirents_def)

definition dmap :: "fs_state \<Rightarrow> byte list \<rightharpoonup> nat" where
  "dmap s = map_of (assoc (dirents s))"

definition dir_wf :: "fs_state \<Rightarrow> bool" where
  "dir_wf s \<longleftrightarrow> shaped s \<and> 0 < n_inodes s \<and> i_node_type (inode s 0) = T_DIRECTORY \<and>
     0 \<le> i_data_block (inode s 0) \<and> root_block s < n_blocks s \<and> entries_ok (dirents s)"

lemma unat_of_nat_mult:
  fixes w :: size_t
  assumes "k * unat w < 2 ^ 64"
  shows "unat (of_nat k * w) = k * unat w"
proof -
  have "of_nat k * w = of_nat (k * unat w)" by simp
  then show ?thesis using unat_of_nat_size [OF assms] by simp
qed

lemma data_block_get_eq:
  assumes "shaped s" and "b < n_blocks s"
  shows "data_block_get s (int b) = Inr (Some (b * bsize s))"
proof -
  have "b * bsize s \<le> n_blocks s * bsize s" using assms(2) by simp
  also have "\<dots> < 2 ^ 64" using assms(1) by (simp add: shaped_def params_ok_def)
  finally have "b * bsize s < 2 ^ 64" .
  then show ?thesis using assms shaped_lens(3) [OF assms(1)]
    by (simp add: data_block_get_def valid_block_number_def unat_of_nat_mult Let_def)
qed

lemma dir_block_eq:
  assumes "dir_wf s"
  shows "dir_block s (inode s 0) msg = Inr (root_block s * bsize s)"
proof -
  have "i_data_block (inode s 0) = int (root_block s)"
    using assms by (simp add: dir_wf_def root_block_def)
  then show ?thesis using assms data_block_get_eq [of s "root_block s"]
    by (simp add: dir_block_def deref_block_def dir_wf_def)
qed

lemma load_root:
  assumes "dir_wf s"
  shows "load_inode s (Some 0) = Inr (inode s 0)"
proof -
  have "shaped s" "0 < n_inodes s" using assms by (auto simp: dir_wf_def)
  then show ?thesis using load_at_arr [OF shaped_lens(1), of s 0] by (simp add: load_inode_def)
qed

lemma find_in_root:
  assumes "dir_wf s" and "terminated nm"
  shows "find_in_dir s (Some 0) (Some nm) =
           Inr (case dmap s (cstr nm) of None \<Rightarrow> - 1 | Some i \<Rightarrow> int i)"
proof -
  have ok: "shaped s" "root_block s < n_blocks s" "entries_ok (dirents s)"
    "i_node_type (inode s 0) = T_DIRECTORY"
    using assms(1) by (auto simp: dir_wf_def)
  have used: "entry_ok e" if "e \<in> set (dirents s)" "snd e \<noteq> - 1" for e
    using touched_ok_used [OF _ that] ok(3) by (simp add: entries_ok_def)
  then show ?thesis
    using find_dir_loop_eq [OF ok(1,2) assms(2), of 0 "max_dir_entries s"] ok(4)
      lookup_entry_assoc [of "dirents s" "cstr nm"]
    by (auto simp: find_in_dir_def load_root [OF assms(1)] dir_block_eq [OF assms(1)]
          dirents_def dmap_def entry_ok_def)
qed

text \<open>The state after the bytes of entry \<open>j\<close> of the root directory are replaced.\<close>

definition put_dirent :: "nat \<Rightarrow> byte list \<Rightarrow> int \<Rightarrow> fs_state \<Rightarrow> fs_state" where
  "put_dirent j nm i s = s\<lparr>fs_data :=
     Some (overwrite (root_block s * bsize s + j * 44) (dirent_bytes nm i) (arr (fs_data s)))\<rparr>"

lemma add_in_root:
  assumes "dir_wf s" and "terminated nm" and "cstr nm \<noteq> []" and "length (cstr nm) < 40"
  shows "add_dir_entry (Some 0) (Some nm) i s =
           Inr (case free_entry (dirents s) of
                  None \<Rightarrow> (- 1, s) | Some j \<Rightarrow> (0, put_dirent j (cstr nm) i s))"
proof -
  have ok: "shaped s" "root_block s < n_blocks s" "i_node_type (inode s 0) = T_DIRECTORY"
    using assms(1) by (auto simp: dir_wf_def)
  show ?thesis
    using add_dir_loop_eq [OF ok(1,2) assms(2,4), of 0 "max_dir_entries s"] assms(2-4) ok(3)
    by (simp add: add_dir_entry_def load_root [OF assms(1)] dir_block_eq [OF assms(1)]
          c_strlen_terminated deref_str_def MAX_FILE_NAME_def dirents_def put_dirent_def
          split: option.splits)
qed

lemma add_in_root_bad_name:
  assumes "terminated nm" and "cstr nm = [] \<or> 40 \<le> length (cstr nm)"
  shows "add_dir_entry ip (Some nm) i s = Inr (- 1, s)"
  using assms by (auto simp: add_dir_entry_def deref_str_def c_strlen_terminated MAX_FILE_NAME_def)

text \<open>The entry that holds a name of the directory.\<close>

lemma dmap_entry:
  assumes "dir_wf s" and "nm \<noteq> []" and "dmap s nm \<noteq> None"
  obtains j where "named_entry (dirents s) nm = Some j" and "snd (dirents s ! j) \<noteq> - 1"
    and "\<And>e. e \<in> set (take (Suc j) (dirents s)) \<Longrightarrow> terminated (fst e)"
proof -
  have "touched_ok (dirents s)" using assms(1) by (simp add: dir_wf_def entries_ok_def)
  from named_entry_assoc [OF this assms(2)] assms(3) that show thesis by (auto simp: dmap_def)
qed

lemma clear_in_root:
  assumes "dir_wf s" and "terminated nm" and "cstr nm \<noteq> []" and "dmap s (cstr nm) \<noteq> None"
    and "named_entry (dirents s) (cstr nm) = Some j"
  shows "clear_dir_entry (Some 0) (Some nm) s = Inr (0, put_dirent j [] (- 1) s)"
proof -
  have ok: "shaped s" "root_block s < n_blocks s" "i_node_type (inode s 0) = T_DIRECTORY"
    using assms(1) by (auto simp: dir_wf_def)
  have "terminated (fst e)" if "e \<in> set (take (Suc j) (dirents s))" for e
    using dmap_entry [OF assms(1,3,4)] assms(5) that by (metis option.inject)
  then show ?thesis
    using clear_dir_loop_eq [OF ok(1,2) assms(2), of 0 "max_dir_entries s" j] assms(5) ok(3)
    by (simp add: clear_dir_entry_def load_root [OF assms(1)] dir_block_eq [OF assms(1)]
          dirents_def put_dirent_def)
qed

lemma put_dirent_frame [simp]:
  "fs_params (put_dirent j nm i s) = fs_params s"
  "inode_table (put_dirent j nm i s) = inode_table s"
  "freeinode_ts (put_dirent j nm i s) = freeinode_ts s"
  "free_blocks (put_dirent j nm i s) = free_blocks s"
  "open_file_table (put_dirent j nm i s) = open_file_table s"
  "free_open_file_entries (put_dirent j nm i s) = free_open_file_entries s"
  "g_library_mutex (put_dirent j nm i s) = g_library_mutex s"
  "root_block (put_dirent j nm i s) = root_block s"
  "max_dir_entries (put_dirent j nm i s) = max_dir_entries s"
  by (simp_all add: put_dirent_def root_block_def max_dir_entries_def)

lemma put_dirent_effect:
  assumes "dir_wf s" and "j < max_dir_entries s" and "length nm < 40"
    and "- 1 \<le> i" and "i < 2 ^ 31"
  shows "shaped (put_dirent j nm i s)"
    and "dirents (put_dirent j nm i s) = (dirents s)[j := (nm @ replicate (40 - length nm) 0, i)]"
    and "b' < n_blocks s \<Longrightarrow> b' \<noteq> root_block s \<Longrightarrow> block (put_dirent j nm i s) b' = block s b'"
proof -
  have ok: "shaped s" "root_block s < n_blocks s" using assms(1) by (auto simp: dir_wf_def)
  note fit = entry_at(4,5) [OF ok assms(2)]
  have len: "length (dirent_bytes nm i) = 44" using assms(3) by simp
  show "shaped (put_dirent j nm i s)" using ok fit(1) assms(3) by (simp add: put_dirent_def)
  have n: "max_dir_entries s * 44 \<le> length (block s (root_block s))"
    using div_times_less_eq_dividend [of "bsize s" 44] length_block [OF ok] by (simp add: layout)
  have "block (put_dirent j nm i s) (root_block s) =
      overwrite (j * 44) (dirent_bytes nm i) (block s (root_block s))"
    unfolding put_dirent_def using block_overwrite_same [OF ok, of "j * 44" "dirent_bytes nm i"] fit(2) len
    by simp
  then show "dirents (put_dirent j nm i s) = (dirents s)[j := (nm @ replicate (40 - length nm) 0, i)]"
    using entries_overwrite [OF less_imp_le [OF assms(3)] assms(2) n, of i] assms(4,5)
    by (simp add: dirents_def bytes_int_int_bytes)
  show "block (put_dirent j nm i s) b' = block s b'" if "b' < n_blocks s" "b' \<noteq> root_block s"
    unfolding put_dirent_def
    using block_overwrite_other [OF ok, of "j * 44" "dirent_bytes nm i"] fit(2) len that by simp
qed

lemma dir_wf_add:
  assumes "dir_wf s" and "free_entry (dirents s) = Some j" and "0 \<notin> set nm" and "nm \<noteq> []"
    and "length nm < 40" and "i < 2 ^ 31" and "dmap s nm = None"
  shows "dir_wf (put_dirent j nm (int i) s)"
    and "dmap (put_dirent j nm (int i) s) = (dmap s)(nm \<mapsto> i)"
proof -
  have j: "j < max_dir_entries s" "j < length (dirents s)" "snd (dirents s ! j) = - 1"
    using free_entry_SomeD [OF assms(2)] by simp_all
  obtain n where n: "40 - length nm = Suc n" using assms(5) by (metis Suc_diff_Suc)
  have name: "cstr (nm @ replicate (40 - length nm) 0) = nm" using assms(3) by (simp add: n)
  have i: "int i < 2 ^ 31" using assms(6) of_nat_less_iff [of i "2 ^ 31", where 'a = int] by simp
  have "entry_ok (nm @ replicate (40 - length nm) 0, int i)"
    using name assms(4) n by (simp add: entry_ok_def)
  moreover have "map_of (assoc (dirents s)) (cstr (nm @ replicate (40 - length nm) 0)) = None"
    using assms(7) by (simp add: name dmap_def)
  moreover have "entries_ok (dirents s)" using assms(1) by (simp add: dir_wf_def)
  ultimately have upd:
    "entries_ok ((dirents s)[j := (nm @ replicate (40 - length nm) 0, int i)])"
    "map_of (assoc ((dirents s)[j := (nm @ replicate (40 - length nm) 0, int i)])) = (dmap s)(nm \<mapsto> i)"
    using entries_ok_add [OF _ assms(2)] by (simp_all add: name dmap_def)
  have i': "- 1 \<le> int i" by simp
  note eff = put_dirent_effect [OF assms(1) j(1) assms(5) i' i]
  show "dir_wf (put_dirent j nm (int i) s)"
    using assms(1) upd(1) eff(1,2) by (simp add: dir_wf_def)
  show "dmap (put_dirent j nm (int i) s) = (dmap s)(nm \<mapsto> i)"
    using upd(2) by (simp add: dmap_def eff(2))
qed

lemma dir_wf_clear:
  assumes "dir_wf s" and "named_entry (dirents s) nm = Some j" and "nm \<noteq> []" and "dmap s nm \<noteq> None"
  shows "dir_wf (put_dirent j [] (- 1) s)"
    and "dmap (put_dirent j [] (- 1) s) = (dmap s)(nm := None)"
proof -
  have j: "j < max_dir_entries s" "j < length (dirents s)" "cstr (fst (dirents s ! j)) = nm"
    using named_entry_SomeD [OF assms(2)] by simp_all
  have used: "snd (dirents s ! j) \<noteq> - 1"
    using dmap_entry [OF assms(1,3,4)] assms(2) by (metis option.inject)
  have "entry_ok (replicate 40 0, - 1)" by (simp add: entry_ok_def numeral_eq_Suc)
  moreover have "entries_ok (dirents s)" using assms(1) by (simp add: dir_wf_def)
  ultimately have upd: "entries_ok ((dirents s)[j := (replicate 40 0, - 1)])"
    "map_of (assoc ((dirents s)[j := (replicate 40 0, - 1)])) = (dmap s)(nm := None)"
    using entries_ok_clear [OF _ j(2,3) assms(3) _ used] by (simp_all add: dmap_def)
  note eff = put_dirent_effect [OF assms(1) j(1), of "[]" "- 1", simplified]
  show "dir_wf (put_dirent j [] (- 1) s)"
    using assms(1) upd(1) eff(1,2) by (simp add: dir_wf_def)
  show "dmap (put_dirent j [] (- 1) s) = (dmap s)(nm := None)"
    using upd(2) by (simp add: dmap_def eff(2))
qed

subsection \<open>The interface of a directory\<close>

locale directory =
  fixes ok :: "'s \<Rightarrow> bool"
    and names :: "'s \<Rightarrow> byte list \<rightharpoonup> nat"
    and valid :: "byte list \<Rightarrow> bool"
    and limit :: nat
    and find :: "byte list \<Rightarrow> 's \<Rightarrow> int res"
    and add :: "byte list \<Rightarrow> nat \<Rightarrow> 's \<Rightarrow> (int \<times> 's) res"
    and clear :: "byte list \<Rightarrow> 's \<Rightarrow> (int \<times> 's) res"
  assumes find_law: "ok s \<Longrightarrow> valid nm \<Longrightarrow>
      find nm s = Inr (case names s nm of None \<Rightarrow> - 1 | Some i \<Rightarrow> int i)"
    and add_law: "ok s \<Longrightarrow> valid nm \<Longrightarrow> names s nm = None \<Longrightarrow> i < limit \<Longrightarrow>
      add nm i s = Inr (- 1, s) \<or>
      (\<exists>s'. add nm i s = Inr (0, s') \<and> ok s' \<and> names s' = (names s)(nm \<mapsto> i))"
    and clear_present: "ok s \<Longrightarrow> valid nm \<Longrightarrow> names s nm \<noteq> None \<Longrightarrow>
      \<exists>s'. clear nm s = Inr (0, s') \<and> ok s' \<and> names s' = (names s)(nm := None)"
begin

lemma add_names:
  assumes "ok s" and "valid nm" and "names s nm = None" and "i < limit" and "add nm i s = Inr (r, s')"
  shows "ok s' \<and> (r = 0 \<and> names s' = (names s)(nm \<mapsto> i) \<or> r = - 1 \<and> s' = s)"
  using add_law [OF assms(1-4)] assms(1,5) by auto

lemma clear_names:
  assumes "ok s" and "valid nm" and "names s nm \<noteq> None" and "clear nm s = Inr (r, s')"
  shows "r = 0 \<and> ok s' \<and> names s' = (names s)(nm := None)"
  using clear_present [OF assms(1-3)] assms(4) by auto

lemma find_added:
  assumes "ok s" and "valid nm" and "names s nm = None" and "i < limit"
    and "add nm i s = Inr (0, s')" and "valid nm'"
  shows "find nm' s' = (if nm' = nm then Inr (int i) else find nm' s)"
  using add_names [OF assms(1-5)] find_law [OF assms(1,6)] find_law [OF _ assms(6), of s'] by auto

lemma find_cleared:
  assumes "ok s" and "valid nm" and "names s nm \<noteq> None" and "clear nm s = Inr (r, s')"
    and "valid nm'"
  shows "find nm' s' = (if nm' = nm then Inr (- 1) else find nm' s)"
  using clear_names [OF assms(1-4)] find_law [OF assms(1,5)] find_law [OF _ assms(5), of s'] by auto

text \<open>Adding a name and clearing it again gives back the same name map.\<close>

lemma clear_added:
  assumes "ok s" and "valid nm" and "names s nm = None" and "i < limit"
    and "add nm i s = Inr (0, s')"
  shows "\<exists>s''. clear nm s' = Inr (0, s'') \<and> ok s'' \<and> names s'' = names s"
proof -
  have s': "ok s'" "names s' = (names s)(nm \<mapsto> i)" using add_names [OF assms] by auto
  with clear_present [OF s'(1) assms(2)] assms(3) show ?thesis by (auto simp: fun_upd_idem)
qed

end

definition name_ok :: "byte list \<Rightarrow> bool" where
  "name_ok nm \<longleftrightarrow> 0 \<notin> set nm \<and> nm \<noteq> [] \<and> length nm < 40"

interpretation root: directory dir_wf dmap name_ok "2 ^ 31"
  "\<lambda>nm s. find_in_dir s (Some 0) (Some (nm @ [0]))"
  "\<lambda>nm i. add_dir_entry (Some 0) (Some (nm @ [0])) (int i)"
  "\<lambda>nm. clear_dir_entry (Some 0) (Some (nm @ [0]))"
proof unfold_locales
  fix s nm assume s: "dir_wf s" and nm: "name_ok nm"
  have t: "terminated (nm @ [0])" "cstr (nm @ [0]) = nm" "nm \<noteq> []" "length nm < 40" "0 \<notin> set nm"
    using nm cstr_append_zero [of nm "[]"] by (simp_all add: name_ok_def)
  show "find_in_dir s (Some 0) (Some (nm @ [0])) =
      Inr (case dmap s nm of None \<Rightarrow> - 1 | Some i \<Rightarrow> int i)"
    using find_in_root [OF s t(1)] t by simp
  show "add_dir_entry (Some 0) (Some (nm @ [0])) (int i) s = Inr (- 1, s) \<or>
      (\<exists>s'. add_dir_entry (Some 0) (Some (nm @ [0])) (int i) s = Inr (0, s') \<and> dir_wf s' \<and>
            dmap s' = (dmap s)(nm \<mapsto> i))" if "dmap s nm = None" "i < 2 ^ 31" for i
    using add_in_root [OF s t(1)] dir_wf_add [OF s _ t(5,3,4) that(2,1)] t
    by (cases "free_entry (dirents s)") auto
  show "\<exists>s'. clear_dir_entry (Some 0) (Some (nm @ [0])) s = Inr (0, s') \<and> dir_wf s' \<and>
      dmap s' = (dmap s)(nm := None)" if "dmap s nm \<noteq> None"
  proof -
    from that have dm: "dmap s nm \<noteq> None" .
    obtain j where j: "named_entry (dirents s) nm = Some j"
      by (rule dmap_entry [OF s t(3) dm])
    with clear_in_root [OF s t(1)] dir_wf_clear [OF s j t(3) dm] t dm show ?thesis by simp
  qed
qed

end
