(* ===== verification/TfsOps.thy ===== *)
theory TfsOps
  imports TfsState
begin

text \<open>
  The public operations of the file system, \<open>fs/operations.c\<close>. Each takes the library lock,
  works on the state of \<open>TfsState\<close> and releases the lock on every way out. The lock is a
  default POSIX mutex: locking it while it is held blocks for ever (\<open>Deadlock\<close> for the one
  thread the broker runs), and both calls otherwise return 0, never the \<open>-1\<close> the code
  tests for.
\<close>

definition mutex_lock :: "fs_state \<Rightarrow> (int \<times> fs_state) res" where
  "mutex_lock s = (if g_library_mutex s then Inl Deadlock else Inr (0, s\<lparr>g_library_mutex := True\<rparr>))"

definition mutex_unlock :: "fs_state \<Rightarrow> int \<times> fs_state" where
  "mutex_unlock s = (0, s\<lparr>g_library_mutex := False\<rparr>)"

text \<open>The block before every \<open>return\<close>: unlock, \<open>-1\<close> if that fails, the given value otherwise.\<close>

definition unlock_return :: "fs_state \<Rightarrow> int \<Rightarrow> int \<times> fs_state" where
  "unlock_return s v = (let (r, s) = mutex_unlock s in if r = - 1 then (- 1, s) else (v, s))"

definition tfs_default_params :: tfs_params where
  "tfs_default_params =
     \<lparr>max_inode_count = 64, max_block_count = 1024, max_open_files_count = 16, block_size = 1024\<rparr>"

definition tfs_init :: "tfs_params option \<Rightarrow> mallocs \<Rightarrow> fs_state \<Rightarrow> (int \<times> fs_state) res" where
  "tfs_init params_ptr m s =
    (let params = (case params_ptr of Some p \<Rightarrow> p | None \<Rightarrow> tfs_default_params) in
     res_bind (state_init params m s) (\<lambda>(r, s).
     if r \<noteq> 0 then Inr (- 1, s)
     else
       res_bind (inode_create T_DIRECTORY s) (\<lambda>(root, s).
       if root \<noteq> ROOT_DIR_INUM then Inr (- 1, s) else Inr (0, s))))"

definition tfs_destroy :: "fs_state \<Rightarrow> int \<times> fs_state" where
  "tfs_destroy s = (let (r, s) = state_destroy s in if r \<noteq> 0 then (- 1, s) else (0, s))"

text \<open>\<open>strlen (name) > 1 && name[0] == '/'\<close>, after the test for \<open>NULL\<close>.\<close>

definition SLASH :: byte where "SLASH = 47"

definition valid_pathname :: "c_ptr \<Rightarrow> bool res" where
  "valid_pathname name =
     (case name of
        None \<Rightarrow> Inr False
      | Some m \<Rightarrow> res_bind (c_strlen m) (\<lambda>n. Inr (n > 1 \<and> m ! 0 = SLASH)))"

definition ptr_plus_1 :: "c_ptr \<Rightarrow> c_ptr" where
  "ptr_plus_1 p = map_option (drop 1) p"

definition tfs_lookup :: "fs_state \<Rightarrow> c_ptr \<Rightarrow> inode_ptr \<Rightarrow> int res" where
  "tfs_lookup s name root_inode =
     res_bind (valid_pathname name) (\<lambda>valid.
     if \<not> valid then Inr (- 1) else find_in_dir s root_inode (ptr_plus_1 name))"

subsection \<open>Opening and closing\<close>

type_synonym tfs_file_mode_t = "32 word"

definition TFS_O_CREAT :: tfs_file_mode_t where "TFS_O_CREAT = 1"
definition TFS_O_TRUNC :: tfs_file_mode_t where "TFS_O_TRUNC = 2"
definition TFS_O_APPEND :: tfs_file_mode_t where "TFS_O_APPEND = 4"

definition has_flag :: "tfs_file_mode_t \<Rightarrow> tfs_file_mode_t \<Rightarrow> bool" where
  "has_flag mode f \<longleftrightarrow> and mode f \<noteq> 0"

text \<open>The branch of \<open>tfs_open\<close> for a file that exists: truncate if asked, choose the offset.\<close>

definition open_existing ::
  "int \<Rightarrow> tfs_file_mode_t \<Rightarrow> fs_state \<Rightarrow> (size_t \<times> fs_state) res" where
  "open_existing inum mode s =
     res_bind (inode_get s inum) (\<lambda>ip.
     res_bind (always_assert (ip \<noteq> None) ''tfs_open: directory files must have an inode'') (\<lambda>_.
     res_bind (load_inode s ip) (\<lambda>inode.
     res_bind
       (if has_flag mode TFS_O_TRUNC \<and> i_size inode > 0 then
          res_bind (data_block_free (i_data_block inode) s) (\<lambda>s.
            store_inode ip (inode\<lparr>i_size := 0\<rparr>) s)
        else Inr s) (\<lambda>s.
     res_bind (load_inode s ip) (\<lambda>inode.
       Inr (if has_flag mode TFS_O_APPEND then i_size inode else 0, s))))))"

definition tfs_open :: "c_ptr \<Rightarrow> tfs_file_mode_t \<Rightarrow> fs_state \<Rightarrow> (int \<times> fs_state) res" where
  "tfs_open name mode s =
     res_bind (mutex_lock s) (\<lambda>(r, s).
     if r = - 1 then Inr (- 1, s)
     else
       res_bind (valid_pathname name) (\<lambda>valid.
       if \<not> valid then Inr (unlock_return s (- 1))
       else
         res_bind (inode_get s ROOT_DIR_INUM) (\<lambda>root.
         res_bind (always_assert (root \<noteq> None) ''tfs_open: root dir inode must exist'') (\<lambda>_.
         res_bind (tfs_lookup s name root) (\<lambda>inum.
         if inum \<ge> 0 then
           res_bind (open_existing inum mode s) (\<lambda>(offset, s).
           res_bind (add_to_open_file_table inum offset s) (\<lambda>(ret, s).
             Inr (unlock_return s ret)))
         else if has_flag mode TFS_O_CREAT then
           res_bind (inode_create T_FILE s) (\<lambda>(inum, s).
           if inum = - 1 then Inr (unlock_return s (- 1))
           else
             res_bind (add_dir_entry root (ptr_plus_1 name) inum s) (\<lambda>(r, s).
             if r = - 1 then
               res_bind (inode_delete inum s) (\<lambda>s. Inr (unlock_return s (- 1)))
             else
               res_bind (add_to_open_file_table inum 0 s) (\<lambda>(ret, s).
                 Inr (unlock_return s ret))))
         else Inr (unlock_return s (- 1)))))))"

definition tfs_close :: "int \<Rightarrow> fs_state \<Rightarrow> (int \<times> fs_state) res" where
  "tfs_close fhandle s =
     res_bind (mutex_lock s) (\<lambda>(r, s).
     if r = - 1 then Inr (- 1, s)
     else
       res_bind (get_open_file_entry s fhandle) (\<lambda>file.
       if file = None then Inr (unlock_return s (- 1))
       else
         res_bind (remove_from_open_file_table fhandle s) (\<lambda>s.
           Inr (unlock_return s 0))))"

subsection \<open>Writing and reading\<close>

text \<open>
  \<open>buffer\<close> is the memory the caller's pointer reaches, so \<open>memcpy\<close> from it or into it fails
  when it is shorter than the count. The result is the count as an \<open>ssize_t\<close>.
\<close>

definition write_bytes ::
  "int \<Rightarrow> inode_ptr \<Rightarrow> byte list \<Rightarrow> size_t \<Rightarrow> fs_state \<Rightarrow> fs_state res" where
  "write_bytes fhandle ip buffer to_write s =
     res_bind (load_inode s ip) (\<lambda>inode.
     res_bind (load_file s fhandle) (\<lambda>file.
     res_bind (data_block_get s (i_data_block inode)) (\<lambda>block.
     res_bind (always_assert (block \<noteq> None) ''tfs_write: data block deleted mid-write'') (\<lambda>_.
     res_bind (deref_block block) (\<lambda>a.
     res_bind (mem_load (Some buffer) 0 (unat to_write)) (\<lambda>bs.
     res_bind (store_bytes (a + unat (of_offset file)) bs s) (\<lambda>s.
     let off = of_offset file + to_write in
     res_bind (store_file fhandle (file\<lparr>of_offset := off\<rparr>) s) (\<lambda>s.
       if off > i_size inode then store_inode ip (inode\<lparr>i_size := off\<rparr>) s else Inr s))))))))"

definition tfs_write :: "int \<Rightarrow> byte list \<Rightarrow> size_t \<Rightarrow> fs_state \<Rightarrow> (int \<times> fs_state) res" where
  "tfs_write fhandle buffer to_write s =
     res_bind (mutex_lock s) (\<lambda>(r, s).
     if r = - 1 then Inr (- 1, s)
     else
       res_bind (get_open_file_entry s fhandle) (\<lambda>file.
       if file = None then Inr (unlock_return s (- 1))
       else
         res_bind (load_file s fhandle) (\<lambda>f.
         res_bind (inode_get s (of_inumber f)) (\<lambda>ip.
         res_bind (always_assert (ip \<noteq> None) ''tfs_write: inode of open file deleted'') (\<lambda>_.
         let bs = state_block_size s;
             to_write = (if to_write + of_offset f > bs then bs - of_offset f else to_write) in
         if to_write > 0 then
           res_bind (load_inode s ip) (\<lambda>inode.
           if i_size inode = 0 then
             res_bind (data_block_alloc s) (\<lambda>(bnum, s).
             if bnum = - 1 then Inr (unlock_return s (- 1))
             else
               res_bind (store_inode ip (inode\<lparr>i_data_block := bnum\<rparr>) s) (\<lambda>s.
               res_bind (write_bytes fhandle ip buffer to_write s) (\<lambda>s.
                 Inr (unlock_return s (sint to_write)))))
           else
             res_bind (write_bytes fhandle ip buffer to_write s) (\<lambda>s.
               Inr (unlock_return s (sint to_write))))
         else Inr (unlock_return s (sint to_write)))))))"

text \<open>Returns the count, the caller's buffer after the call, and the state.\<close>

definition tfs_read ::
  "int \<Rightarrow> byte list \<Rightarrow> size_t \<Rightarrow> fs_state \<Rightarrow> (int \<times> byte list \<times> fs_state) res" where
  "tfs_read fhandle buffer len s =
     res_bind (mutex_lock s) (\<lambda>(r, s).
     if r = - 1 then Inr (- 1, buffer, s)
     else
       res_bind (get_open_file_entry s fhandle) (\<lambda>file.
       if file = None then (let (v, s) = unlock_return s (- 1) in Inr (v, buffer, s))
       else
         res_bind (load_file s fhandle) (\<lambda>f.
         res_bind (inode_get s (of_inumber f)) (\<lambda>ip.
         res_bind (always_assert (ip \<noteq> None) ''tfs_read: inode of open file deleted'') (\<lambda>_.
         res_bind (load_inode s ip) (\<lambda>inode.
         let to_read = i_size inode - of_offset f;
             to_read = (if to_read > len then len else to_read) in
         if to_read > 0 then
           res_bind (data_block_get s (i_data_block inode)) (\<lambda>block.
           res_bind (always_assert (block \<noteq> None) ''tfs_read: data block deleted mid-read'') (\<lambda>_.
           res_bind (deref_block block) (\<lambda>a.
           res_bind (mem_load (fs_data s) (a + unat (of_offset f)) (unat to_read)) (\<lambda>bs.
           res_bind (mem_store (Some buffer) 0 bs) (\<lambda>buffer.
           res_bind (store_file fhandle (f\<lparr>of_offset := of_offset f + to_read\<rparr>) s) (\<lambda>s.
             let (v, s) = unlock_return s (sint to_read) in
             Inr (v, case buffer of Some b \<Rightarrow> b | None \<Rightarrow> [], s)))))))
         else (let (v, s) = unlock_return s (sint to_read) in Inr (v, buffer, s))))))))"

definition tfs_unlink :: "c_ptr \<Rightarrow> fs_state \<Rightarrow> (int \<times> fs_state) res" where
  "tfs_unlink target s =
     res_bind (mutex_lock s) (\<lambda>(r, s).
     if r = - 1 then Inr (- 1, s)
     else
       res_bind (valid_pathname target) (\<lambda>valid.
       if \<not> valid then Inr (unlock_return s (- 1))
       else
         res_bind (inode_get s ROOT_DIR_INUM) (\<lambda>root.
         res_bind (always_assert (root \<noteq> None) ''tfs_open: root dir inode must exist'') (\<lambda>_.
         res_bind (tfs_lookup s target root) (\<lambda>inum.
         if inum = - 1 then Inr (unlock_return s (- 1))
         else
           res_bind (inode_delete inum s) (\<lambda>s.
           res_bind (clear_dir_entry root (ptr_plus_1 target) s) (\<lambda>(r, s).
             if r = - 1 then Inr (unlock_return s (- 1)) else Inr (unlock_return s 0))))))))"

end
