(* ===== verification/TfsInv.thy ===== *)
theory TfsInv
  imports TfsDir TfsOps
begin

text \<open>
  The invariant of the file system and its preservation by the elementary state changes the
  operations are made of.

  \<open>fs_ok\<close> says: the root directory is well formed and names each live inode but the root
  exactly once (no dangling and no orphan inode); only the root is a directory; no file is
  larger than a block; two files never share a data block and every taken block belongs to
  a file; and every open handle is for a live file, at an offset within it. \<open>fs_inv\<close> adds
  that the library lock is free.
\<close>

definition blk :: "fs_state \<Rightarrow> nat \<Rightarrow> nat" where
  "blk s i = nat (i_data_block (inode s i))"

abbreviation fsize :: "fs_state \<Rightarrow> nat \<Rightarrow> nat" where
  "fsize s i \<equiv> unat (i_size (inode s i))"

definition nonempty :: "fs_state \<Rightarrow> nat set" where
  "nonempty s = {i \<in> live_inodes s. 0 < fsize s i}"

definition inode_ok :: "fs_state \<Rightarrow> nat \<Rightarrow> bool" where
  "inode_ok s i \<longleftrightarrow> (i \<noteq> 0 \<longrightarrow> i_node_type (inode s i) = T_FILE) \<and> fsize s i \<le> bsize s \<and>
     (0 < fsize s i \<longrightarrow> 0 \<le> i_data_block (inode s i))"

definition handle_inum :: "fs_state \<Rightarrow> nat \<Rightarrow> nat" where
  "handle_inum s h = nat (of_inumber (ofile s h))"

abbreviation handle_off :: "fs_state \<Rightarrow> nat \<Rightarrow> nat" where
  "handle_off s h \<equiv> unat (of_offset (ofile s h))"

definition handle_ok :: "fs_state \<Rightarrow> nat \<Rightarrow> bool" where
  "handle_ok s h \<longleftrightarrow> 0 < of_inumber (ofile s h) \<and> handle_inum s h \<in> live_inodes s \<and>
     handle_off s h \<le> fsize s (handle_inum s h)"

definition fs_ok :: "fs_state \<Rightarrow> bool" where
  "fs_ok s \<longleftrightarrow> dir_wf s \<and> 0 \<in> live_inodes s \<and> fsize s 0 = bsize s \<and>
     (\<forall>i \<in> live_inodes s. inode_ok s i) \<and>
     inj_on (blk s) (nonempty s) \<and> blk s ` nonempty s = used_blocks s \<and>
     inj_on (dmap s) (dom (dmap s)) \<and> ran (dmap s) = live_inodes s - {0} \<and>
     (\<forall>h \<in> open_handles s. handle_ok s h)"

definition fs_inv :: "fs_state \<Rightarrow> bool" where
  "fs_inv s \<longleftrightarrow> fs_ok s \<and> \<not> g_library_mutex s"

lemma fs_okI:
  assumes "dir_wf s" and "0 \<in> live_inodes s" and "fsize s 0 = bsize s"
    and "\<And>i. i \<in> live_inodes s \<Longrightarrow> inode_ok s i"
    and "inj_on (blk s) (nonempty s)" and "blk s ` nonempty s = used_blocks s"
    and "inj_on (dmap s) (dom (dmap s))" and "ran (dmap s) = live_inodes s - {0}"
    and "\<And>h. h \<in> open_handles s \<Longrightarrow> handle_ok s h"
  shows "fs_ok s"
  using assms by (simp add: fs_ok_def)

lemma fs_okD:
  assumes "fs_ok s"
  shows "dir_wf s" and "shaped s" and "0 \<in> live_inodes s" and "fsize s 0 = bsize s"
    and "i \<in> live_inodes s \<Longrightarrow> inode_ok s i"
    and "inj_on (blk s) (nonempty s)" and "blk s ` nonempty s = used_blocks s"
    and "inj_on (dmap s) (dom (dmap s))" and "ran (dmap s) = live_inodes s - {0}"
    and "h \<in> open_handles s \<Longrightarrow> handle_ok s h"
  using assms by (simp_all add: fs_ok_def dir_wf_def)

lemma live_bound: "shaped s \<Longrightarrow> i \<in> live_inodes s \<Longrightarrow> i < n_inodes s"
  using taken_of_subset [OF shaped_lens(2)] by blast

lemma used_bound: "shaped s \<Longrightarrow> b \<in> used_blocks s \<Longrightarrow> b < n_blocks s"
  using taken_of_subset [OF shaped_lens(4)] by blast

lemma open_bound: "shaped s \<Longrightarrow> h \<in> open_handles s \<Longrightarrow> h < n_files s"
  using taken_of_subset [OF shaped_lens(6)] by blast

lemma bsize_pos: "shaped s \<Longrightarrow> 0 < bsize s"
  by (simp add: shaped_def params_ok_def)

lemma root_nonempty:
  assumes "fs_ok s"
  shows "0 \<in> nonempty s" and "blk s 0 = root_block s" and "root_block s \<in> used_blocks s"
proof -
  show "0 \<in> nonempty s"
    using fs_okD(3,4) [OF assms] bsize_pos [OF fs_okD(2) [OF assms]] by (simp add: nonempty_def)
  then show "root_block s \<in> used_blocks s"
    using fs_okD(7) [OF assms] by (auto simp: blk_def root_block_def)
  show "blk s 0 = root_block s" by (simp add: blk_def root_block_def)
qed

lemma nonempty_facts:
  assumes "fs_ok s" and "i \<in> nonempty s"
  shows "i \<in> live_inodes s" and "i < n_inodes s" and "blk s i \<in> used_blocks s"
    and "blk s i < n_blocks s" and "i_data_block (inode s i) = int (blk s i)"
    and "i \<noteq> 0 \<Longrightarrow> blk s i \<noteq> root_block s"
proof -
  show i: "i \<in> live_inodes s" using assms(2) by (simp add: nonempty_def)
  show "i < n_inodes s" using live_bound [OF fs_okD(2) [OF assms(1)] i] .
  show b: "blk s i \<in> used_blocks s" using fs_okD(7) [OF assms(1)] assms(2) by blast
  show "blk s i < n_blocks s" using used_bound [OF fs_okD(2) [OF assms(1)] b] .
  show "i_data_block (inode s i) = int (blk s i)"
    using fs_okD(5) [OF assms(1) i] assms(2) by (simp add: inode_ok_def nonempty_def blk_def)
  show "blk s i \<noteq> root_block s" if "i \<noteq> 0"
    using fs_okD(6) [OF assms(1)] root_nonempty [OF assms(1)] assms(2) that
    by (metis inj_onD)
qed

lemma handle_facts:
  assumes "fs_ok s" and "h \<in> open_handles s"
  shows "handle_inum s h \<in> live_inodes s" and "handle_inum s h \<noteq> 0"
    and "of_inumber (ofile s h) = int (handle_inum s h)"
    and "handle_off s h \<le> fsize s (handle_inum s h)" and "h < n_files s"
  using fs_okD(10) [OF assms] open_bound [OF fs_okD(2) [OF assms(1)] assms(2)]
  by (auto simp: handle_ok_def handle_inum_def)

lemma inode_blocks_ok_fs: "fs_ok s \<Longrightarrow> inode_blocks_ok s"
  using nonempty_facts [of s] fs_okD(2) [of s]
  by (force simp: inode_blocks_ok_def nonempty_def word_less_nat_alt)

subsection \<open>Frames\<close>

lemma dirents_eqI:
  "root_block t = root_block s \<Longrightarrow> bsize t = bsize s \<Longrightarrow>
   block t (root_block s) = block s (root_block s) \<Longrightarrow> dirents t = dirents s"
  by (simp add: dirents_def max_dir_entries_def)

lemma dir_wf_eqI:
  assumes "dir_wf s" and "shaped t" and "fs_params t = fs_params s"
    and "inode t 0 = inode s 0" and "block t (root_block s) = block s (root_block s)"
  shows "dir_wf t" and "dmap t = dmap s"
proof -
  have "root_block t = root_block s" using assms(4) by (simp add: root_block_def)
  moreover from this have "dirents t = dirents s" using assms(3,5) by (intro dirents_eqI) simp_all
  ultimately show "dir_wf t" "dmap t = dmap s" using assms by (simp_all add: dir_wf_def dmap_def)
qed

lemma fs_ok_mutex [simp]: "fs_ok (s\<lparr>g_library_mutex := b\<rparr>) \<longleftrightarrow> fs_ok s"
proof -
  let ?t = "s\<lparr>g_library_mutex := b\<rparr>"
  have d: "dirents ?t = dirents s" by (rule dirents_eqI) (simp_all add: root_block_def)
  then have "dir_wf ?t \<longleftrightarrow> dir_wf s" "dmap ?t = dmap s"
    by (simp_all add: dir_wf_def dmap_def root_block_def)
  moreover have "blk ?t = blk s" "nonempty ?t = nonempty s" "inode_ok ?t = inode_ok s"
    "handle_ok ?t = handle_ok s"
    by (simp_all add: fun_eq_iff blk_def nonempty_def inode_ok_def handle_ok_def handle_inum_def)
  ultimately show ?thesis by (simp add: fs_ok_def)
qed

subsection \<open>Elementary changes that keep the invariant\<close>

text \<open>Moving the offset of an open handle, and opening and closing handles.\<close>

lemma fs_ok_files:
  assumes "fs_ok s"
    and "has_len (open_file_table t) (n_files s)" and "has_len (free_open_file_entries t) (n_files s)"
    and "t = s\<lparr>open_file_table := open_file_table t, free_open_file_entries := free_open_file_entries t\<rparr>"
    and "\<And>h. h \<in> open_handles t \<Longrightarrow> 0 < of_inumber (ofile t h) \<and>
           handle_inum t h \<in> live_inodes s \<and> handle_off t h \<le> fsize s (handle_inum t h)"
  shows "fs_ok t"
proof -
  have same: "fs_params t = fs_params s" "inode_table t = inode_table s"
    "freeinode_ts t = freeinode_ts s" "fs_data t = fs_data s" "free_blocks t = free_blocks s"
    by (subst assms(4), simp)+
  have "shaped t" using fs_okD(2) [OF assms(1)] assms(2,3) same by (simp add: shaped_def)
  moreover have "block t = block s" by (simp add: block_def fun_eq_iff same)
  ultimately have wf: "dir_wf t" "dmap t = dmap s"
    using dir_wf_eqI [OF fs_okD(1) [OF assms(1)]] same by simp_all
  have "blk t = blk s" "nonempty t = nonempty s" "inode_ok t = inode_ok s"
    by (simp_all add: fun_eq_iff blk_def nonempty_def inode_ok_def same)
  then show ?thesis
    using assms(1,5) wf by (simp add: fs_ok_def same handle_ok_def)
qed

lemma fs_ok_move:
  assumes "fs_ok s" and "h \<in> open_handles s" and "unat off \<le> fsize s (handle_inum s h)"
  shows "fs_ok (s\<lparr>open_file_table :=
           Some ((arr (open_file_table s))[h := ofile s h\<lparr>of_offset := off\<rparr>])\<rparr>)"
proof (rule fs_ok_files [OF assms(1)])
  let ?t = "s\<lparr>open_file_table := Some ((arr (open_file_table s))[h := ofile s h\<lparr>of_offset := off\<rparr>])\<rparr>"
  note len = has_len_arr [OF shaped_lens(5) [OF fs_okD(2) [OF assms(1)]]]
  show "has_len (open_file_table ?t) (n_files s)" using len by simp
  show "has_len (free_open_file_entries ?t) (n_files s)"
    using shaped_lens(6) [OF fs_okD(2) [OF assms(1)]] by simp
  fix k assume "k \<in> open_handles ?t"
  then have k: "k \<in> open_handles s" by simp
  have upd: "ofile ?t k = (if k = h then ofile s h\<lparr>of_offset := off\<rparr> else ofile s k)"
    using handle_facts(5) [OF assms(1) k] len by (simp add: nth_list_update)
  have inum: "handle_inum ?t k = handle_inum s k" using upd by (simp add: handle_inum_def)
  show "0 < of_inumber (ofile ?t k) \<and> handle_inum ?t k \<in> live_inodes s \<and>
      handle_off ?t k \<le> fsize s (handle_inum ?t k)"
    using upd inum fs_okD(10) [OF assms(1) k] assms(3) by (auto simp: handle_ok_def split: if_splits)
qed simp

lemma fs_ok_open:
  assumes "fs_ok s" and "h < n_files s" and "h \<notin> open_handles s"
    and "i \<in> live_inodes s" and "i \<noteq> 0" and "unat off \<le> fsize s i"
  shows "fs_ok (s\<lparr>free_open_file_entries := Some ((arr (free_open_file_entries s))[h := TAKEN]),
                  open_file_table := Some ((arr (open_file_table s))
                    [h := \<lparr>of_inumber = int i, of_offset = off\<rparr>])\<rparr>)"
proof (rule fs_ok_files [OF assms(1)])
  let ?t = "s\<lparr>free_open_file_entries := Some ((arr (free_open_file_entries s))[h := TAKEN]),
              open_file_table := Some ((arr (open_file_table s))
                    [h := \<lparr>of_inumber = int i, of_offset = off\<rparr>])\<rparr>"
  note len = shaped_lens(5) [OF fs_okD(2) [OF assms(1)]] shaped_lens(6) [OF fs_okD(2) [OF assms(1)]]
  note len' = has_len_arr [OF len(1)] has_len_arr [OF len(2)]
  show "has_len (open_file_table ?t) (n_files s)" using len' by simp
  show "has_len (free_open_file_entries ?t) (n_files s)" using len' by simp
  fix k assume "k \<in> open_handles ?t"
  then have k: "k = h \<or> k \<in> open_handles s \<and> k \<noteq> h" using assms(2) len(2) by auto
  have upd: "ofile ?t k = (if k = h then \<lparr>of_inumber = int i, of_offset = off\<rparr> else ofile s k)"
    using k handle_facts(5) [OF assms(1), of k] assms(2) len' by (auto simp: nth_list_update)
  show "0 < of_inumber (ofile ?t k) \<and> handle_inum ?t k \<in> live_inodes s \<and>
      handle_off ?t k \<le> fsize s (handle_inum ?t k)"
    using upd k fs_okD(10) [OF assms(1), of k] assms(4-6)
    by (auto simp: handle_ok_def handle_inum_def split: if_splits)
qed simp

lemma fs_ok_close:
  assumes "fs_ok s"
  shows "fs_ok (s\<lparr>free_open_file_entries := Some ((arr (free_open_file_entries s))[h := FREE])\<rparr>)"
proof (rule fs_ok_files [OF assms])
  let ?t = "s\<lparr>free_open_file_entries := Some ((arr (free_open_file_entries s))[h := FREE])\<rparr>"
  note len = shaped_lens(5,6) [OF fs_okD(2) [OF assms]]
  show "has_len (open_file_table ?t) (n_files s)" using len by simp
  show "has_len (free_open_file_entries ?t) (n_files s)" using has_len_arr [OF len(2)] by simp
  fix k assume "k \<in> open_handles ?t"
  then have "k \<in> open_handles s" using len(2) by simp
  from fs_okD(10) [OF assms this] show "0 < of_inumber (ofile ?t k) \<and>
      handle_inum ?t k \<in> live_inodes s \<and> handle_off ?t k \<le> fsize s (handle_inum ?t k)"
    by (simp add: handle_ok_def handle_inum_def)
qed simp

text \<open>Writing bytes into a data block other than the root directory's.\<close>

lemma fs_ok_data:
  assumes "fs_ok s" and "b < n_blocks s" and "b \<noteq> root_block s" and "off + length bs \<le> bsize s"
  shows "fs_ok (s\<lparr>fs_data := Some (overwrite (b * bsize s + off) bs (arr (fs_data s)))\<rparr>)"
proof -
  let ?t = "s\<lparr>fs_data := Some (overwrite (b * bsize s + off) bs (arr (fs_data s)))\<rparr>"
  note sh = fs_okD(2) [OF assms(1)]
  have "shaped ?t" using sh block_in_data [OF sh assms(2)] assms(4) by simp
  moreover have "block ?t (root_block s) = block s (root_block s)"
    using block_overwrite_other [OF sh assms(2,4)] assms(1,3) by (simp add: fs_ok_def dir_wf_def)
  ultimately have wf: "dir_wf ?t" "dmap ?t = dmap s"
    using dir_wf_eqI [OF fs_okD(1) [OF assms(1)]] by simp_all
  have "blk ?t = blk s" "nonempty ?t = nonempty s" "inode_ok ?t = inode_ok s" "handle_ok ?t = handle_ok s"
    by (simp_all add: fun_eq_iff blk_def nonempty_def inode_ok_def handle_ok_def handle_inum_def)
  then show ?thesis using assms(1) wf by (simp add: fs_ok_def)
qed

text \<open>
  Changing the inode of a file other than the root, together with the allocation states of
  blocks: the new sizes and blocks must again be disjoint and account for every taken block.
\<close>

lemma fs_ok_inode:
  assumes "fs_ok s" and "i \<in> live_inodes s" and "i \<noteq> 0"
    and "i_node_type r = T_FILE" and "unat (i_size r) \<le> bsize s"
    and "0 < unat (i_size r) \<Longrightarrow> 0 \<le> i_data_block r"
    and "has_len fb (n_blocks s)"
    and "\<And>h. h \<in> open_handles s \<Longrightarrow> handle_inum s h = i \<Longrightarrow> handle_off s h \<le> unat (i_size r)"
    and "0 < unat (i_size r) \<Longrightarrow> nat (i_data_block r) \<notin> blk s ` (nonempty s - {i})"
    and "taken_of fb = (if 0 < unat (i_size r) then {nat (i_data_block r)} else {})
           \<union> blk s ` (nonempty s - {i})"
  shows "fs_ok (s\<lparr>inode_table := Some ((arr (inode_table s))[i := r]), free_blocks := fb\<rparr>)"
proof -
  let ?t = "s\<lparr>inode_table := Some ((arr (inode_table s))[i := r]), free_blocks := fb\<rparr>"
  note sh = fs_okD(2) [OF assms(1)]
  have i: "i < length (arr (inode_table s))"
    using live_bound [OF sh assms(2)] has_len_arr [OF shaped_lens(1) [OF sh]] by simp
  have ino: "inode ?t k = (if k = i then r else inode s k)" for k using i by (simp add: nth_list_update)
  have "shaped ?t" using sh assms(7) has_len_arr [OF shaped_lens(1) [OF sh]] by (simp add: shaped_def)
  then have wf: "dir_wf ?t" "dmap ?t = dmap s"
    using dir_wf_eqI [OF fs_okD(1) [OF assms(1)]] assms(3) ino by simp_all
  have blk: "blk ?t k = (if k = i then nat (i_data_block r) else blk s k)" for k
    using ino [of k] by (simp add: blk_def)
  have ne: "nonempty ?t = (if 0 < unat (i_size r) then {i} else {}) \<union> (nonempty s - {i})"
    using ino assms(2) by (auto simp: nonempty_def)
  have rest: "blk ?t ` (nonempty s - {i}) = blk s ` (nonempty s - {i})"
    by (rule image_cong) (auto simp: blk)
  have "inj_on (blk ?t) (nonempty s - {i})"
    using inj_on_subset [OF fs_okD(6) [OF assms(1)], of "nonempty s - {i}"]
    by (auto simp: inj_on_def blk)
  then have inj: "inj_on (blk ?t) (nonempty ?t)"
    using assms(9) rest blk
    by (cases "0 < unat (i_size r)") (simp_all add: ne inj_on_insert del: insert_Diff_single Un_Diff_cancel)
  have img: "blk ?t ` nonempty ?t = used_blocks ?t"
    using rest assms(10) by (auto simp: ne image_Un blk)
  show ?thesis
  proof (rule fs_okI)
    show "inode_ok ?t k" if "k \<in> live_inodes ?t" for k
      using that ino [of k] fs_okD(5) [OF assms(1), of k] assms(4-6) by (simp add: inode_ok_def)
    show "handle_ok ?t h" if "h \<in> open_handles ?t" for h
      using that ino fs_okD(10) [OF assms(1), of h] assms(8) [of h]
      by (auto simp: handle_ok_def handle_inum_def)
  qed (use assms(1-3) wf inj img ino in \<open>simp_all add: fs_ok_def\<close>)
qed

text \<open>An inode that is not live can hold anything.\<close>

lemma dead_inode_frame:
  fixes s t :: fs_state and r :: inode_t
  assumes "fs_ok s" and "i \<notin> live_inodes s" and "i < n_inodes s"
  defines "t \<equiv> s\<lparr>inode_table := Some ((arr (inode_table s))[i := r])\<rparr>"
  shows "k \<in> live_inodes s \<Longrightarrow> inode t k = inode s k" and "inode t i = r"
    and "shaped t" and "dir_wf t" and "dmap t = dmap s" and "dirents t = dirents s"
    and "root_block t = root_block s" and "block t b = block s b"
proof -
  note sh = fs_okD(2) [OF assms(1)]
  have i: "i < length (arr (inode_table s))" using assms(3) has_len_arr [OF shaped_lens(1) [OF sh]] by simp
  show *: "inode t k = inode s k" if "k \<in> live_inodes s" for k
    using that assms(2) i by (auto simp: t_def nth_list_update)
  show "inode t i = r" using i by (simp add: t_def)
  show sh': "shaped t" using sh by (simp add: t_def)
  show blocks: "block t b = block s b" for b by (simp add: t_def)
  show wf: "dir_wf t" "dmap t = dmap s"
    by (rule dir_wf_eqI [OF fs_okD(1) [OF assms(1)] sh']; use * fs_okD(3) [OF assms(1)] blocks in \<open>simp add: t_def\<close>)+
  show rb: "root_block t = root_block s" using * fs_okD(3) [OF assms(1)] by (simp add: root_block_def)
  show "dirents t = dirents s" using rb blocks by (intro dirents_eqI) (simp_all add: t_def)
qed

lemma fs_ok_dead_inode:
  assumes "fs_ok s" and "i \<notin> live_inodes s" and "i < n_inodes s"
  shows "fs_ok (s\<lparr>inode_table := Some ((arr (inode_table s))[i := r])\<rparr>)"
proof -
  let ?t = "s\<lparr>inode_table := Some ((arr (inode_table s))[i := r])\<rparr>"
  note fr = dead_inode_frame [OF assms, where r = r]
  have same: "inode ?t k = inode s k" if "k \<in> live_inodes s" for k using fr(1) [OF that] .
  have ne: "nonempty ?t = nonempty s" using same by (auto simp: nonempty_def)
  have blk: "blk ?t k = blk s k" if "k \<in> nonempty s" for k
    using same [of k] that by (simp add: blk_def nonempty_def)
  show ?thesis
  proof (rule fs_okI)
    show "inj_on (blk ?t) (nonempty ?t)"
      unfolding ne using fs_okD(6) [OF assms(1)] blk by (simp add: inj_on_def)
    show "blk ?t ` nonempty ?t = used_blocks ?t"
      unfolding ne using fs_okD(7) [OF assms(1)] blk by (simp cong: image_cong)
    show "inode_ok ?t k" if "k \<in> live_inodes ?t" for k
      using that same [of k] fs_okD(5) [OF assms(1), of k] by (simp add: inode_ok_def)
    show "handle_ok ?t h" if "h \<in> open_handles ?t" for h
      using that same [of "handle_inum s h"] fs_okD(10) [OF assms(1), of h]
      by (simp add: handle_ok_def handle_inum_def)
    show "fsize ?t 0 = bsize ?t" using same [of 0] fs_okD(3,4) [OF assms(1)] by simp
  qed (use fr fs_okD [OF assms(1)] in simp_all)
qed

text \<open>Creating a file: a dead inode becomes a live empty file and gets a directory entry.\<close>

definition created :: "nat \<Rightarrow> fs_state \<Rightarrow> fs_state" where
  "created i s = s\<lparr>freeinode_ts := Some ((arr (freeinode_ts s))[i := TAKEN]),
                  inode_table := Some ((arr (inode_table s))[i := fresh_file])\<rparr>"

lemma created_frame:
  assumes "fs_ok s" and "i \<notin> live_inodes s" and "i < n_inodes s"
  shows "k \<in> live_inodes s \<Longrightarrow> inode (created i s) k = inode s k"
    and "inode (created i s) i = fresh_file"
    and "live_inodes (created i s) = insert i (live_inodes s)"
    and "dir_wf (created i s)" and "dmap (created i s) = dmap s"
    and "dirents (created i s) = dirents s" and "root_block (created i s) = root_block s"
    and "block (created i s) b = block s b"
proof -
  let ?t = "s\<lparr>inode_table := Some ((arr (inode_table s))[i := fresh_file])\<rparr>"
  note fr = dead_inode_frame [OF assms, where r = fresh_file]
  note len = shaped_lens(2) [OF fs_okD(2) [OF assms(1)]]
  have t: "created i s = ?t\<lparr>freeinode_ts := Some ((arr (freeinode_ts s))[i := TAKEN])\<rparr>"
    by (simp add: created_def)
  show "inode (created i s) k = inode s k" if "k \<in> live_inodes s" using fr(1) [OF that] by (simp add: t)
  show "inode (created i s) i = fresh_file" using fr(2) by (simp add: t)
  show "live_inodes (created i s) = insert i (live_inodes s)" using len assms(3) by (simp add: t)
  have sh: "shaped (created i s)"
    using fr(3) fs_okD(2) [OF assms(1)] by (simp add: t)
  show blocks: "block (created i s) b = block s b" for b by (simp add: t)
  show rb: "root_block (created i s) = root_block s" using fr(7) by (simp add: t root_block_def)
  show "dir_wf (created i s)" "dmap (created i s) = dmap s"
    by (rule dir_wf_eqI [OF fs_okD(1) [OF assms(1)] sh];
        use blocks fr(1) [OF fs_okD(3) [OF assms(1)]] in \<open>simp add: t\<close>)+
  show "dirents (created i s) = dirents s"
    using rb blocks by (intro dirents_eqI) (simp_all add: t)
qed

lemma fs_ok_create:
  assumes "fs_ok s" and "i \<notin> live_inodes s" and "i < n_inodes s"
    and "name_ok nm" and "dmap s nm = None" and "free_entry (dirents s) = Some j"
  shows "fs_ok (put_dirent j nm (int i) (created i s))"
    and "dmap (put_dirent j nm (int i) (created i s)) = (dmap s)(nm \<mapsto> i)"
proof -
  let ?t = "put_dirent j nm (int i) (created i s)"
  note fr = created_frame [OF assms(1-3)]
  have nm: "0 \<notin> set nm" "nm \<noteq> []" "length nm < 40" using assms(4) by (auto simp: name_ok_def)
  have small: "i < 2 ^ 31"
    using assms(3) fs_okD(2) [OF assms(1)] by (simp add: shaped_def params_ok_def)
  have j: "free_entry (dirents (created i s)) = Some j" using assms(6) fr(6) by simp
  have fresh: "dmap (created i s) nm = None" using assms(5) fr(5) by simp
  note wf = dir_wf_add [OF fr(4) j nm small fresh]
  show d: "dmap ?t = (dmap s)(nm \<mapsto> i)" using wf(2) fr(5) by simp
  have par: "fs_params ?t = fs_params s" "free_blocks ?t = free_blocks s"
    "open_file_table ?t = open_file_table s" "free_open_file_entries ?t = free_open_file_entries s"
    by (simp_all add: created_def)
  have live: "live_inodes ?t = insert i (live_inodes s)" using fr(3) by simp
  have same: "inode ?t k = inode s k" if "k \<in> live_inodes s" for k using fr(1) [OF that] by simp
  have new: "inode ?t i = fresh_file" using fr(2) by simp
  have ne: "nonempty ?t = nonempty s"
    using same new live assms(2) by (auto simp: nonempty_def fresh_file_def)
  have blk: "blk ?t k = blk s k" if "k \<in> nonempty s" for k
    using same [of k] that by (simp add: blk_def nonempty_def)
  have i0: "i \<noteq> 0" using fs_okD(3) [OF assms(1)] assms(2) by metis
  have iran: "i \<notin> ran (dmap s)" using fs_okD(9) [OF assms(1)] assms(2) by simp
  show "fs_ok ?t"
  proof (rule fs_okI)
    show "inj_on (blk ?t) (nonempty ?t)"
      unfolding ne using fs_okD(6) [OF assms(1)] blk by (simp add: inj_on_def)
    show "blk ?t ` nonempty ?t = used_blocks ?t"
      unfolding ne using fs_okD(7) [OF assms(1)] blk par by (simp cong: image_cong)
    show "inode_ok ?t k" if "k \<in> live_inodes ?t" for k
      using that live same [of k] new fs_okD(5) [OF assms(1), of k] par
      by (auto simp: inode_ok_def fresh_file_def)
    show "handle_ok ?t h" if "h \<in> open_handles ?t" for h
      using that same [of "handle_inum s h"] live fs_okD(10) [OF assms(1), of h] par
      by (simp add: handle_ok_def handle_inum_def)
    show "inj_on (dmap ?t) (dom (dmap ?t))"
      using fs_okD(8) [OF assms(1)] iran assms(5)
      by (auto simp: d inj_on_def ran_def dom_def)
    show "ran (dmap ?t) = live_inodes ?t - {0}"
      unfolding d live using fs_okD(9) [OF assms(1)] assms(5) i0 by auto
    show "fsize ?t 0 = bsize ?t" using same [of 0] fs_okD(3,4) [OF assms(1)] par by simp
    show "0 \<in> live_inodes ?t" using live fs_okD(3) [OF assms(1)] by simp
  qed (rule wf(1))
qed

text \<open>Deleting a file no handle is open on: its entry, its block and its inode are given back.\<close>

definition quiescent :: "fs_state \<Rightarrow> nat \<Rightarrow> bool" where
  "quiescent s i \<longleftrightarrow> (\<forall>h \<in> open_handles s. handle_inum s h \<noteq> i)"

definition freed_blocks :: "fs_state \<Rightarrow> nat \<Rightarrow> allocation_state_t list option" where
  "freed_blocks s i = (if 0 < i_size (inode s i) then Some ((arr (free_blocks s))[blk s i := FREE])
                       else free_blocks s)"

definition deleted :: "nat \<Rightarrow> fs_state \<Rightarrow> fs_state" where
  "deleted i s = s\<lparr>free_blocks := freed_blocks s i,
                   freeinode_ts := Some ((arr (freeinode_ts s))[i := FREE])\<rparr>"

lemma freed_blocks_facts:
  assumes "fs_ok s" and "i \<in> live_inodes s"
  shows "has_len (freed_blocks s i) (n_blocks s)"
    and "taken_of (freed_blocks s i) = blk s ` (nonempty s - {i})"
proof -
  note len = shaped_lens(4) [OF fs_okD(2) [OF assms(1)]]
  show "has_len (freed_blocks s i) (n_blocks s)"
    using len has_len_arr [OF len] by (simp add: freed_blocks_def)
  have ne: "i \<in> nonempty s \<longleftrightarrow> 0 < i_size (inode s i)"
    using assms(2) by (simp add: nonempty_def word_less_nat_alt)
  show "taken_of (freed_blocks s i) = blk s ` (nonempty s - {i})"
  proof (cases "i \<in> nonempty s")
    case True
    then have "blk s ` (nonempty s - {i}) = blk s ` nonempty s - {blk s i}"
      using fs_okD(6) [OF assms(1)] by (auto simp: inj_on_def)
    then show ?thesis using True ne len fs_okD(7) [OF assms(1)] by (simp add: freed_blocks_def)
  next
    case False
    then show ?thesis using ne fs_okD(7) [OF assms(1)] by (simp add: freed_blocks_def)
  qed
qed

lemma inode_delete_fs:
  assumes "fs_ok s" and "i \<in> live_inodes s"
  shows "inode_delete (int i) s = Inr (deleted i s)"
proof -
  have "0 < i_size (inode s i) \<Longrightarrow> \<exists>b < n_blocks s. i_data_block (inode s i) = int b"
    using inode_blocks_ok_fs [OF assms(1)] assms(2) by (simp add: inode_blocks_ok_def)
  from inode_delete_eq [OF fs_okD(2) [OF assms(1)] assms(2) this]
  show ?thesis by (simp add: deleted_def freed_blocks_def blk_def)
qed

lemma deleted_frame:
  assumes "fs_ok s" and "i \<in> live_inodes s" and "i \<noteq> 0"
  shows "dir_wf (deleted i s)" and "dmap (deleted i s) = dmap s"
    and "dirents (deleted i s) = dirents s" and "root_block (deleted i s) = root_block s"
    and "block (deleted i s) b = block s b"
    and "live_inodes (deleted i s) = live_inodes s - {i}"
proof -
  note sh = fs_okD(2) [OF assms(1)]
  have "shaped (deleted i s)"
    using sh freed_blocks_facts(1) [OF assms(1,2)] has_len_arr [OF shaped_lens(2) [OF sh]]
    by (simp add: shaped_def deleted_def)
  moreover show blocks: "block (deleted i s) b = block s b" for b by (simp add: deleted_def)
  ultimately show "dir_wf (deleted i s)" "dmap (deleted i s) = dmap s"
    using dir_wf_eqI [OF fs_okD(1) [OF assms(1)]] by (simp_all add: deleted_def)
  show rb: "root_block (deleted i s) = root_block s" by (simp add: deleted_def root_block_def)
  show "dirents (deleted i s) = dirents s"
    using rb blocks by (intro dirents_eqI) (simp_all add: deleted_def)
  show "live_inodes (deleted i s) = live_inodes s - {i}"
    using shaped_lens(2) [OF sh] by (simp add: deleted_def)
qed

lemma fs_ok_delete:
  assumes "fs_ok s" and "dmap s nm = Some i" and "nm \<noteq> []" and "quiescent s i"
    and "named_entry (dirents s) nm = Some j"
  shows "fs_ok (put_dirent j [] (- 1) (deleted i s))"
    and "dmap (put_dirent j [] (- 1) (deleted i s)) = (dmap s)(nm := None)"
proof -
  let ?t = "put_dirent j [] (- 1) (deleted i s)"
  have "i \<in> ran (dmap s)" using assms(2) by (rule ranI)
  then have i: "i \<in> live_inodes s" "i \<noteq> 0" using fs_okD(9) [OF assms(1)] by auto
  note fr = deleted_frame [OF assms(1) i] and fb = freed_blocks_facts [OF assms(1) i(1)]
  have j: "named_entry (dirents (deleted i s)) nm = Some j" using assms(5) fr(3) by simp
  have "dmap (deleted i s) nm \<noteq> None" using assms(2) fr(2) by simp
  note wf = dir_wf_clear [OF fr(1) j assms(3) this]
  show d: "dmap ?t = (dmap s)(nm := None)" using wf(2) fr(2) by simp
  have par: "fs_params ?t = fs_params s" "inode_table ?t = inode_table s"
    "free_blocks ?t = freed_blocks s i"
    "open_file_table ?t = open_file_table s" "free_open_file_entries ?t = free_open_file_entries s"
    by (simp_all add: deleted_def)
  have live: "live_inodes ?t = live_inodes s - {i}" using fr(6) by simp
  have blk: "blk ?t = blk s" by (simp add: fun_eq_iff blk_def deleted_def)
  have ne: "nonempty ?t = nonempty s - {i}" unfolding nonempty_def live by (auto simp: deleted_def)
  show "fs_ok ?t"
  proof (rule fs_okI)
    show "inj_on (blk ?t) (nonempty ?t)"
      unfolding ne blk using fs_okD(6) [OF assms(1)] by (rule inj_on_subset) auto
    show "blk ?t ` nonempty ?t = used_blocks ?t" unfolding ne blk using fb(2) by (simp add: deleted_def)
    show "inode_ok ?t k" if "k \<in> live_inodes ?t" for k
      using that fs_okD(5) [OF assms(1), of k] unfolding live by (simp add: inode_ok_def deleted_def)
    show "handle_ok ?t h" if "h \<in> open_handles ?t" for h
      using that fs_okD(10) [OF assms(1), of h] assms(4) unfolding handle_ok_def live
      by (auto simp: handle_inum_def quiescent_def deleted_def)
    show "inj_on (dmap ?t) (dom (dmap ?t))"
      using fs_okD(8) [OF assms(1)] by (auto simp: d inj_on_def dom_def)
    have "ran ((dmap s)(nm := None)) = ran (dmap s) - {i}"
      using fs_okD(8) [OF assms(1)] assms(2) by (auto simp: ran_def inj_on_def dom_def) (metis option.sel)
    then show "ran (dmap ?t) = live_inodes ?t - {0}"
      unfolding d live using fs_okD(9) [OF assms(1)] by auto
    show "fsize ?t 0 = bsize ?t" using fs_okD(4) [OF assms(1)] by (simp add: deleted_def)
    show "0 \<in> live_inodes ?t" using live i fs_okD(3) [OF assms(1)] by simp
  qed (rule wf(1))
qed

text \<open>Truncating a file whose open handles, if any, all stand at its start.\<close>

definition truncated :: "nat \<Rightarrow> fs_state \<Rightarrow> fs_state" where
  "truncated i s = s\<lparr>inode_table := Some ((arr (inode_table s))[i := inode s i\<lparr>i_size := 0\<rparr>]),
                     free_blocks := freed_blocks s i\<rparr>"

lemma fs_ok_truncate:
  assumes "fs_ok s" and "i \<in> live_inodes s" and "i \<noteq> 0"
    and "\<And>h. h \<in> open_handles s \<Longrightarrow> handle_inum s h = i \<Longrightarrow> handle_off s h = 0"
  shows "fs_ok (truncated i s)"
  unfolding truncated_def
  using fs_okD(5) [OF assms(1,2)] assms(3,4) freed_blocks_facts [OF assms(1,2)]
  by (intro fs_ok_inode [OF assms(1-3)]) (auto simp: inode_ok_def)

end
