(* ===== verification/TfsSpec.thy ===== *)
theory TfsSpec
  imports TfsInv
begin

text \<open>
  What each public operation of the file system does, from a state that satisfies the
  invariant: its result and its exact effect, on every branch. The effects are then stated
  on an abstract file system (names, file contents, handles with offsets) that the detailed
  state refines.
\<close>

definition content :: "fs_state \<Rightarrow> nat \<Rightarrow> byte list" where
  "content s i = take (fsize s i) (block s (blk s i))"

record afs =
  a_dir :: "byte list \<rightharpoonup> nat"
  a_file :: "nat \<rightharpoonup> byte list"
  a_open :: "nat \<rightharpoonup> nat \<times> nat"

definition absf :: "fs_state \<Rightarrow> afs" where
  "absf s = \<lparr>
     a_dir = dmap s,
     a_file = (\<lambda>i. if i \<in> live_inodes s - {0} then Some (content s i) else None),
     a_open = (\<lambda>h. if h \<in> open_handles s then Some (handle_inum s h, handle_off s h) else None)\<rparr>"

subsection \<open>The lock and the handle lookup\<close>

abbreviation locked :: "fs_state \<Rightarrow> fs_state" where
  "locked s \<equiv> s\<lparr>g_library_mutex := True\<rparr>"

lemma mutex_lock_inv: "fs_inv s \<Longrightarrow> mutex_lock s = Inr (0, locked s)"
  by (simp add: fs_inv_def mutex_lock_def)

lemma unlock_return_eq: "unlock_return s v = (v, s\<lparr>g_library_mutex := False\<rparr>)"
  by (simp add: unlock_return_def mutex_unlock_def)

lemma unlock_locked: "fs_inv s \<Longrightarrow> s\<lparr>g_library_mutex := False\<rparr> = s"
  by (simp add: fs_inv_def)

lemma unlock_upds:
  "\<not> g_library_mutex s \<Longrightarrow> s\<lparr>open_file_table := x, g_library_mutex := False\<rparr> = s\<lparr>open_file_table := x\<rparr>"
  "\<not> g_library_mutex s \<Longrightarrow> s\<lparr>inode_table := t, open_file_table := x, g_library_mutex := False\<rparr>
     = s\<lparr>inode_table := t, open_file_table := x\<rparr>"
  "\<not> g_library_mutex s \<Longrightarrow> s\<lparr>fs_data := d, open_file_table := x, g_library_mutex := False\<rparr>
     = s\<lparr>fs_data := d, open_file_table := x\<rparr>"
  "\<not> g_library_mutex s \<Longrightarrow>
     s\<lparr>inode_table := t, fs_data := d, open_file_table := x, g_library_mutex := False\<rparr>
     = s\<lparr>inode_table := t, fs_data := d, open_file_table := x\<rparr>"
  "\<not> g_library_mutex s \<Longrightarrow>
     s\<lparr>inode_table := t, fs_data := d, free_blocks := f, open_file_table := x,
       g_library_mutex := False\<rparr>
     = s\<lparr>inode_table := t, fs_data := d, free_blocks := f, open_file_table := x\<rparr>"
  by (cases s; simp)+

lemma get_open_file_entry_eq:
  assumes "shaped s"
  shows "get_open_file_entry s z = Inr (if 0 \<le> z \<and> nat z \<in> open_handles s then Some z else None)"
proof -
  note len = shaped_lens(6) [OF assms]
  have "load_at (free_open_file_entries s) z = Inr (arr (free_open_file_entries s) ! nat z)"
    if "0 \<le> z" "nat z < n_files s"
    using load_at_arr [OF len that(2)] that(1) by simp
  then show ?thesis
    using has_len_arr [OF len]
    by (auto simp: get_open_file_entry_def valid_file_handle_def taken_of_iff)
qed

lemma load_file_eq:
  "shaped s \<Longrightarrow> h < n_files s \<Longrightarrow> load_file s (int h) = Inr (ofile s h)"
  using load_at_arr [OF shaped_lens(5)] by (simp add: load_file_def)

lemma store_file_eq:
  "shaped s \<Longrightarrow> h < n_files s \<Longrightarrow>
     store_file (int h) f s = Inr (s\<lparr>open_file_table := Some ((arr (open_file_table s))[h := f])\<rparr>)"
  using store_at_arr [OF shaped_lens(5)] by (simp add: store_file_def)

lemma load_inode_eq:
  "shaped s \<Longrightarrow> i < n_inodes s \<Longrightarrow> load_inode s (Some (int i)) = Inr (inode s i)"
  using load_at_arr [OF shaped_lens(1)] by (simp add: load_inode_def)

lemma store_inode_eq:
  "shaped s \<Longrightarrow> i < n_inodes s \<Longrightarrow>
     store_inode (Some (int i)) r s = Inr (s\<lparr>inode_table := Some ((arr (inode_table s))[i := r])\<rparr>)"
  using store_at_arr [OF shaped_lens(1)] by (simp add: store_inode_def)

lemma inode_get_eq:
  "shaped s \<Longrightarrow> i < n_inodes s \<Longrightarrow> inode_get s (int i) = Inr (Some (int i))"
  using has_len_not_None [OF shaped_lens(1)] by (simp add: inode_get_def valid_inumber_def)

lemmas tfs_step = load_file_eq store_file_eq load_inode_eq store_inode_eq inode_get_eq
  get_open_file_entry_eq data_block_get_eq unlock_return_eq

text \<open>An invalid handle is refused by every operation that takes one, without any effect.\<close>

definition bad_handle :: "fs_state \<Rightarrow> int \<Rightarrow> bool" where
  "bad_handle s z \<longleftrightarrow> \<not> (0 \<le> z \<and> nat z \<in> open_handles s)"

lemma bad_handle_entry:
  assumes "fs_inv s" and "bad_handle s z"
  shows "get_open_file_entry (locked s) z = Inr None"
proof -
  have sh: "shaped (locked s)" using assms(1) by (simp add: fs_inv_def fs_ok_def dir_wf_def)
  show ?thesis unfolding get_open_file_entry_eq [OF sh] using assms(2) by (simp add: bad_handle_def)
qed

lemma bad_handle_ops:
  assumes "fs_inv s" and "bad_handle s z"
  shows "tfs_close z s = Inr (- 1, s)"
    and "tfs_write z buf len s = Inr (- 1, s)"
    and "tfs_read z buf len s = Inr (- 1, buf, s)"
  using assms(1) bad_handle_entry [OF assms]
  by (simp_all add: tfs_close_def tfs_write_def tfs_read_def mutex_lock_inv unlock_return_eq
      unlock_locked)

subsection \<open>Closing\<close>

definition closed :: "nat \<Rightarrow> fs_state \<Rightarrow> fs_state" where
  "closed h s = s\<lparr>free_open_file_entries := Some ((arr (free_open_file_entries s))[h := FREE])\<rparr>"

lemma tfs_close_eq:
  assumes "fs_inv s" and "h \<in> open_handles s"
  shows "tfs_close (int h) s = Inr (0, closed h s)"
proof -
  have sh: "shaped (locked s)" using assms(1) by (simp add: fs_inv_def fs_ok_def dir_wf_def)
  show ?thesis
    using assms sh remove_from_open_file_table_eq [OF sh, of h]
    by (simp add: tfs_close_def mutex_lock_inv get_open_file_entry_eq unlock_return_eq closed_def
        fs_inv_def)
qed

lemma fs_inv_closed: "fs_inv s \<Longrightarrow> fs_inv (closed h s)"
  by (simp add: fs_inv_def closed_def fs_ok_close)

lemma absf_closed:
  assumes "fs_inv s"
  shows "absf (closed h s) = (absf s)\<lparr>a_open := (a_open (absf s))(h := None)\<rparr>"
proof -
  have len: "has_len (free_open_file_entries s) (n_files s)"
    using assms by (simp add: fs_inv_def fs_ok_def dir_wf_def shaped_def)
  have "dirents (closed h s) = dirents s"
    by (rule dirents_eqI) (simp_all add: closed_def root_block_def)
  then show ?thesis using len
    by (auto simp: absf_def dmap_def content_def blk_def handle_inum_def closed_def fun_eq_iff)
qed

subsection \<open>Reading\<close>

definition moved :: "nat \<Rightarrow> nat \<Rightarrow> fs_state \<Rightarrow> fs_state" where
  "moved h n s = s\<lparr>open_file_table := Some ((arr (open_file_table s))
      [h := ofile s h\<lparr>of_offset := of_offset (ofile s h) + of_nat n\<rparr>])\<rparr>"

definition read_count :: "fs_state \<Rightarrow> nat \<Rightarrow> size_t \<Rightarrow> nat" where
  "read_count s h len = min (unat len) (fsize s (handle_inum s h) - handle_off s h)"

lemma moved_0: "h < n_files s \<Longrightarrow> shaped s \<Longrightarrow> moved h 0 s = s"
  using has_len_arr [OF shaped_lens(5), of s] by (simp add: moved_def)

lemma content_length:
  assumes "fs_ok s" and "i \<in> live_inodes s"
  shows "length (content s i) = fsize s i"
proof (cases "i \<in> nonempty s")
  case True
  then show ?thesis
    using length_block [OF fs_okD(2) [OF assms(1)] nonempty_facts(4) [OF assms(1) True]]
      fs_okD(5) [OF assms] by (simp add: content_def inode_ok_def)
next
  case False
  then show ?thesis using assms(2) by (simp add: nonempty_def content_def)
qed

lemma bsize_small: "shaped s \<Longrightarrow> bsize s < 2 ^ 63"
  by (simp add: shaped_def params_ok_def)

lemma le_bsize_small:
  assumes "shaped s" and "k \<le> bsize s"
  shows "k < 2 ^ 63" and "k < 2 ^ 64"
proof -
  show "k < 2 ^ 63" using bsize_small [OF assms(1)] assms(2) by linarith
  then show "k < 2 ^ 64" by simp
qed

text \<open>The copy out of the block gives the part of the contents behind the offset.\<close>

lemma read_content:
  assumes "fs_ok s" and "h \<in> open_handles s" and "0 < n"
    and "n \<le> fsize s (handle_inum s h) - handle_off s h"
  shows "mem_load (fs_data s) (blk s (handle_inum s h) * bsize s + handle_off s h) n =
           Inr (take n (drop (handle_off s h) (content s (handle_inum s h))))"
    and "length (take n (drop (handle_off s h) (content s (handle_inum s h)))) = n"
proof -
  let ?i = "handle_inum s h"
  note sh = fs_okD(2) [OF assms(1)] and hf = handle_facts [OF assms(1,2)]
  have size: "fsize s ?i \<le> bsize s" using fs_okD(5) [OF assms(1) hf(1)] by (simp add: inode_ok_def)
  have "?i \<in> nonempty s" using hf(1) assms(3,4) by (simp add: nonempty_def)
  note bf = nonempty_facts [OF assms(1) this]
  have fit: "blk s ?i * bsize s + bsize s \<le> length (arr (fs_data s))"
    by (rule block_in_data [OF sh bf(4)])
  have data: "fs_data s = Some (arr (fs_data s))" using has_len_arr [OF shaped_lens(3) [OF sh]] by simp
  have "bytes_at (blk s ?i * bsize s + handle_off s h) n (arr (fs_data s))
      = bytes_at (handle_off s h) n (block s (blk s ?i))"
    using fit size assms(4) hf(4) by (simp add: block_def bytes_at_bytes_at)
  also have "\<dots> = take n (drop (handle_off s h) (content s ?i))"
    using assms(4) by (simp add: bytes_at_def content_def drop_take min_def)
  finally show "mem_load (fs_data s) (blk s ?i * bsize s + handle_off s h) n =
      Inr (take n (drop (handle_off s h) (content s ?i)))"
    using fit size assms(4) hf(4) by (subst data) simp
  show "length (take n (drop (handle_off s h) (content s ?i))) = n"
    using assms(4) content_length [OF assms(1) hf(1)] by simp
qed

lemma tfs_read_eq:
  fixes s h len
  defines "n \<equiv> read_count s h len"
  assumes "fs_inv s" and "h \<in> open_handles s" and "n \<le> length buf"
  shows "tfs_read (int h) buf len s = Inr (int n,
           take n (drop (handle_off s h) (content s (handle_inum s h))) @ drop n buf, moved h n s)"
proof -
  let ?i = "handle_inum s h" and ?f = "ofile s h"
  have ok: "fs_ok s" and unlocked: "\<not> g_library_mutex s" using assms(2) by (auto simp: fs_inv_def)
  note sh = fs_okD(2) [OF ok] and hf = handle_facts [OF ok assms(3)]
  have i: "?i < n_inodes s" by (rule live_bound [OF sh hf(1)])
  have size: "fsize s ?i \<le> bsize s" using fs_okD(5) [OF ok hf(1)] by (simp add: inode_ok_def)
  define r where "r = (if i_size (inode s ?i) - of_offset ?f > len then len
                       else i_size (inode s ?i) - of_offset ?f)"
  have "of_offset ?f \<le> i_size (inode s ?i)" using hf(4) by (simp add: word_le_nat_alt)
  then have r: "unat r = n"
    by (auto simp: r_def n_def read_count_def unat_sub word_less_nat_alt min_def)
  have n_le: "n \<le> fsize s ?i - handle_off s h" by (simp add: n_def read_count_def)
  have "n < 2 ^ 63" using n_le size bsize_small [OF sh] by linarith
  with r have sint: "sint r = int n" by (rule sint_size)
  have of_n: "of_nat n = r" by (simp add: r [symmetric])
  have start: "tfs_read (int h) buf len s =
      (if r > 0 then
         res_bind (data_block_get (locked s) (i_data_block (inode s ?i))) (\<lambda>block.
         res_bind (always_assert (block \<noteq> None) ''tfs_read: data block deleted mid-read'') (\<lambda>_.
         res_bind (deref_block block) (\<lambda>a.
         res_bind (mem_load (fs_data s) (a + handle_off s h) n) (\<lambda>bs.
         res_bind (mem_store (Some buf) 0 bs) (\<lambda>buffer.
           Inr (int n, case buffer of Some b \<Rightarrow> b | None \<Rightarrow> [], moved h n s))))))
       else Inr (int n, buf, s))"
    using assms(2,3) sh hf(3,5) i unlocked
    by (simp add: tfs_read_def mutex_lock_inv tfs_step r_def [symmetric] sint r Let_def
        moved_def of_n unlock_upds)
  have pos: "r > 0 \<longleftrightarrow> 0 < n" using r by (simp add: word_less_nat_alt)
  show ?thesis
  proof (cases "0 < n")
    case False
    then show ?thesis using start pos moved_0 [OF hf(5) sh] by simp
  next
    case True
    then have "?i \<in> nonempty s" using hf(1) n_le by (simp add: nonempty_def)
    then show ?thesis
      using start pos True read_content [OF ok assms(3) True n_le] assms(4) sh nonempty_facts(4,5) [OF ok]
      by (simp add: data_block_get_eq deref_block_def overwrite_def)
  qed
qed

lemma fs_inv_moved:
  assumes "fs_inv s" and "h \<in> open_handles s" and "handle_off s h + n \<le> fsize s (handle_inum s h)"
  shows "fs_inv (moved h n s)"
proof -
  have ok: "fs_ok s" using assms(1) by (simp add: fs_inv_def)
  have "handle_off s h + n \<le> bsize s"
    using assms(3) fs_okD(5) [OF ok handle_facts(1) [OF ok assms(2)]] by (simp add: inode_ok_def)
  then have "unat (of_offset (ofile s h) + of_nat n) = handle_off s h + n"
    by (intro unat_plus_of_nat le_bsize_small [OF fs_okD(2) [OF ok]])
  then have "fs_ok (moved h n s)"
    unfolding moved_def using assms(3) by (intro fs_ok_move [OF ok assms(2)]) simp
  then show ?thesis using assms(1) by (simp add: fs_inv_def moved_def)
qed

lemma absf_moved:
  assumes "fs_inv s" and "h \<in> open_handles s" and "handle_off s h + n \<le> fsize s (handle_inum s h)"
  shows "absf (moved h n s) = (absf s)\<lparr>a_open :=
           (a_open (absf s))(h \<mapsto> (handle_inum s h, handle_off s h + n))\<rparr>"
proof -
  have ok: "fs_ok s" using assms(1) by (simp add: fs_inv_def)
  note sh = fs_okD(2) [OF ok]
  have h: "h < length (arr (open_file_table s))"
    using open_bound [OF sh assms(2)] has_len_arr [OF shaped_lens(5) [OF sh]] by simp
  have "handle_off s h + n \<le> bsize s"
    using assms(3) fs_okD(5) [OF ok handle_facts(1) [OF ok assms(2)]] by (simp add: inode_ok_def)
  then have off: "unat (of_offset (ofile s h) + of_nat n) = handle_off s h + n"
    by (intro unat_plus_of_nat le_bsize_small [OF sh])
  have "dirents (moved h n s) = dirents s"
    by (rule dirents_eqI) (simp_all add: moved_def root_block_def)
  then show ?thesis using h off assms(2)
    by (auto simp: absf_def dmap_def content_def blk_def handle_inum_def moved_def fun_eq_iff
        nth_list_update)
qed

subsection \<open>Writing\<close>

text \<open>
  The state after \<open>bs\<close> is written through handle \<open>h\<close> to file \<open>i\<close>, whose data block is \<open>b\<close>
  and with \<open>fb\<close> the block allocation afterwards.
\<close>

definition wrote :: "nat \<Rightarrow> nat \<Rightarrow> nat \<Rightarrow> allocation_state_t list option \<Rightarrow> byte list \<Rightarrow>
    fs_state \<Rightarrow> fs_state" where
  "wrote h i b fb bs s = s\<lparr>
     inode_table := Some ((arr (inode_table s))[i := inode s i
       \<lparr>i_size := of_nat (max (fsize s i) (handle_off s h + length bs)), i_data_block := int b\<rparr>]),
     fs_data := Some (overwrite (b * bsize s + handle_off s h) bs (arr (fs_data s))),
     free_blocks := fb,
     open_file_table := Some ((arr (open_file_table s))
       [h := ofile s h\<lparr>of_offset := of_offset (ofile s h) + of_nat (length bs)\<rparr>])\<rparr>"

lemma write_bytes_eq:
  assumes "shaped s" and "i < n_inodes s" and "h < n_files s"
    and "i_data_block (inode s i) = int b" and "b < n_blocks s"
    and "handle_off s h + n \<le> bsize s" and "n \<le> length buf"
  shows "write_bytes (int h) (Some (int i)) buf (of_nat n) s =
           Inr (wrote h i b (free_blocks s) (take n buf) s)"
proof -
  have n64: "handle_off s h + n < 2 ^ 64" using le_bsize_small(2) [OF assms(1,6)] .
  then have "n < 2 ^ 64" by linarith
  note un = unat_of_nat_size [OF this] and up = unat_plus_of_nat [OF n64]
  have fit: "b * bsize s + handle_off s h + n \<le> length (arr (fs_data s))"
    using block_in_data [OF assms(1,5)] assms(6) by linarith
  have same: "inode s i\<lparr>i_data_block := int b\<rparr> = inode s i"
    using assms(4) by (metis inode_t.surjective inode_t.update_convs(3) old.unit.exhaust)
  have it: "Some ((arr (inode_table s))[i := inode s i]) = inode_table s"
    using has_len_arr [OF shaped_lens(1) [OF assms(1)]] by simp
  let ?off = "of_offset (ofile s h) + of_nat n"
  have start: "write_bytes (int h) (Some (int i)) buf (of_nat n) s =
      (let s1 = s\<lparr>fs_data := Some (overwrite (b * bsize s + handle_off s h) (take n buf) (arr (fs_data s))),
                  open_file_table := Some ((arr (open_file_table s))[h := ofile s h\<lparr>of_offset := ?off\<rparr>])\<rparr>
       in if ?off > i_size (inode s i)
          then Inr (s1\<lparr>inode_table := Some ((arr (inode_table s))[i := inode s i\<lparr>i_size := ?off\<rparr>])\<rparr>)
          else Inr s1)"
    using assms fit un
    by (simp add: write_bytes_def tfs_step deref_block_def store_bytes_arr Let_def bytes_at_def)
  show ?thesis
  proof (cases "?off > i_size (inode s i)")
    case True
    then have "max (fsize s i) (handle_off s h + n) = unat ?off"
      by (simp add: word_less_nat_alt up)
    then have size: "of_nat (max (fsize s i) (handle_off s h + n)) = ?off" by simp
    have "inode s i\<lparr>i_size := ?off, i_data_block := int b\<rparr> = inode s i\<lparr>i_size := ?off\<rparr>"
      using assms(4) by simp
    with True size start assms(7) show ?thesis by (simp add: wrote_def)
  next
    case False
    then have "max (fsize s i) (handle_off s h + n) = fsize s i"
      by (simp add: word_less_nat_alt up)
    then have size: "of_nat (max (fsize s i) (handle_off s h + n)) = i_size (inode s i)" by simp
    have "inode s i\<lparr>i_size := i_size (inode s i), i_data_block := int b\<rparr> = inode s i"
      using same by simp
    with False size start assms(7) it show ?thesis by (simp add: wrote_def)
  qed
qed

text \<open>What has to hold of the block \<open>b\<close> and the allocation \<open>fb\<close> for the write to be sound.\<close>

definition write_block_ok :: "nat \<Rightarrow> nat \<Rightarrow> allocation_state_t list option \<Rightarrow> fs_state \<Rightarrow> bool" where
  "write_block_ok i b fb s \<longleftrightarrow> b < n_blocks s \<and> has_len fb (n_blocks s) \<and>
     b \<notin> blk s ` (nonempty s - {i}) \<and> taken_of fb = insert b (blk s ` (nonempty s - {i})) \<and>
     (i \<in> nonempty s \<longrightarrow> b = blk s i)"

lemma write_block_not_root:
  assumes "fs_ok s" and "i \<noteq> 0" and "write_block_ok i b fb s"
  shows "b \<noteq> root_block s"
proof -
  have "0 \<in> nonempty s - {i}" using root_nonempty(1) [OF assms(1)] assms(2) by simp
  then have "blk s 0 \<noteq> b" using assms(3) by (auto simp: write_block_ok_def)
  then show ?thesis using root_nonempty(2) [OF assms(1)] by simp
qed

lemma wrote_ok:
  assumes "fs_ok s" and "h \<in> open_handles s" and "i = handle_inum s h"
    and "write_block_ok i b fb s" and "0 < length bs" and "handle_off s h + length bs \<le> bsize s"
  shows "fs_ok (wrote h i b fb bs s)"
proof -
  let ?off = "handle_off s h" and ?n = "length bs"
  define m where "m = max (fsize s i) (?off + ?n)"
  define r where "r = inode s i\<lparr>i_size := of_nat m, i_data_block := int b\<rparr>"
  define t1 where "t1 = s\<lparr>inode_table := Some ((arr (inode_table s))[i := r]), free_blocks := fb\<rparr>"
  define t2 where
    "t2 = t1\<lparr>fs_data := Some (overwrite (b * bsize t1 + ?off) bs (arr (fs_data t1)))\<rparr>"
  note sh = fs_okD(2) [OF assms(1)] and hf = handle_facts [OF assms(1,2), folded assms(3)]
  note wb = assms(4) [unfolded write_block_ok_def]
  have i: "i < n_inodes s" by (rule live_bound [OF sh hf(1)])
  have size: "fsize s i \<le> bsize s" "i_node_type (inode s i) = T_FILE"
    using fs_okD(5) [OF assms(1) hf(1)] hf(2) by (simp_all add: inode_ok_def)
  have m: "m \<le> bsize s" "0 < m" "fsize s i \<le> m" "?off + ?n \<le> m"
    using size assms(5,6) by (auto simp: m_def less_max_iff_disj)
  then have um: "unat (i_size r) = m" using le_bsize_small(2) [OF sh m(1)] by (simp add: r_def unat_of_nat_size)
  have up: "unat (of_offset (ofile s h) + of_nat ?n) = ?off + ?n"
    by (rule unat_plus_of_nat) (rule le_bsize_small(2) [OF sh assms(6)])
  have ok1: "fs_ok t1"
    unfolding t1_def
  proof (rule fs_ok_inode [OF assms(1) hf(1,2)])
    show "handle_off s k \<le> unat (i_size r)" if "k \<in> open_handles s" "handle_inum s k = i" for k
      using handle_facts(4) [OF assms(1) that(1)] that(2) m(3) by (simp add: um)
  qed (use size m um wb in \<open>auto simp: r_def\<close>)
  have "n_blocks t1 = n_blocks s" "bsize t1 = bsize s" "root_block t1 = root_block s"
    using hf(2) by (simp_all add: t1_def root_block_def)
  then have ok2: "fs_ok t2"
    unfolding t2_def using fs_ok_data [OF ok1, of b ?off bs] wb
      write_block_not_root [OF assms(1) hf(2) assms(4)] assms(6) by simp
  have t: "wrote h i b fb bs s = t2\<lparr>open_file_table := Some ((arr (open_file_table t2))
      [h := ofile t2 h\<lparr>of_offset := of_offset (ofile s h) + of_nat ?n\<rparr>])\<rparr>"
    by (simp add: wrote_def t1_def t2_def r_def m_def)
  have "fsize t2 (handle_inum t2 h) = m"
    using i sh um assms(3) by (simp add: t1_def t2_def handle_inum_def)
  then show ?thesis
    unfolding t using up m(4) assms(2) by (intro fs_ok_move [OF ok2]) (simp_all add: t1_def t2_def)
qed

text \<open>What the write changes: the bytes of one block, one inode, one offset.\<close>

lemma wrote_block:
  assumes "shaped s" and "b < n_blocks s" and "handle_off s h + length bs \<le> bsize s"
  shows "block (wrote h i b fb bs s) b = overwrite (handle_off s h) bs (block s b)"
    and "b' < n_blocks s \<Longrightarrow> b' \<noteq> b \<Longrightarrow> block (wrote h i b fb bs s) b' = block s b'"
proof -
  let ?t = "s\<lparr>fs_data := Some (overwrite (b * bsize s + handle_off s h) bs (arr (fs_data s)))\<rparr>"
  have "block (wrote h i b fb bs s) = block ?t" by (simp add: wrote_def block_def fun_eq_iff)
  then show "block (wrote h i b fb bs s) b = overwrite (handle_off s h) bs (block s b)"
    "b' < n_blocks s \<Longrightarrow> b' \<noteq> b \<Longrightarrow> block (wrote h i b fb bs s) b' = block s b'"
    using block_overwrite_same [OF assms(1,2,3)] block_overwrite_other [OF assms(1,2,3)] by simp_all
qed

lemma wrote_inode:
  assumes "shaped s" and "i < n_inodes s"
  shows "inode (wrote h i b fb bs s) k = (if k = i then inode s i
    \<lparr>i_size := of_nat (max (fsize s i) (handle_off s h + length bs)), i_data_block := int b\<rparr>
    else inode s k)"
  using assms by (simp add: wrote_def nth_list_update)

lemma wrote_facts:
  assumes "fs_ok s" and "h \<in> open_handles s" and "i = handle_inum s h"
    and "write_block_ok i b fb s" and "0 < length bs" and "handle_off s h + length bs \<le> bsize s"
  shows "content (wrote h i b fb bs s) i = write_at (handle_off s h) bs (content s i)"
    and "k \<in> live_inodes s \<Longrightarrow> k \<noteq> i \<Longrightarrow> content (wrote h i b fb bs s) k = content s k"
    and "handle_off (wrote h i b fb bs s) h = handle_off s h + length bs"
    and "dmap (wrote h i b fb bs s) = dmap s"
proof -
  let ?off = "handle_off s h" and ?n = "length bs" and ?t = "wrote h i b fb bs s"
  let ?m = "max (fsize s i) (?off + ?n)"
  note sh = fs_okD(2) [OF assms(1)] and hf = handle_facts [OF assms(1,2), folded assms(3)]
  note wb = assms(4) [unfolded write_block_ok_def]
  have size: "fsize s i \<le> bsize s" using fs_okD(5) [OF assms(1) hf(1)] by (simp add: inode_ok_def)
  have b: "b < n_blocks s" using wb by simp
  note block = wrote_block [OF sh b assms(6)] and ino = wrote_inode [OF sh live_bound [OF sh hf(1)]]
  have "unat (of_offset (ofile s h) + of_nat ?n) = ?off + ?n"
    by (rule unat_plus_of_nat) (rule le_bsize_small(2) [OF sh assms(6)])
  then show "handle_off ?t h = ?off + ?n" using hf(5) sh by (simp add: wrote_def)
  have "dirents ?t = dirents s"
  proof (rule dirents_eqI)
    show "root_block ?t = root_block s" using ino hf(2) by (simp add: root_block_def)
    show "bsize ?t = bsize s" by (simp add: wrote_def)
    show "block ?t (root_block s) = block s (root_block s)"
      using block(2) write_block_not_root [OF assms(1) hf(2) assms(4)] fs_okD(1) [OF assms(1)]
      by (simp add: dir_wf_def)
  qed
  then show "dmap ?t = dmap s" by (simp add: dmap_def)
  show "content ?t k = content s k" if k: "k \<in> live_inodes s" "k \<noteq> i"
  proof (cases "k \<in> nonempty s")
    case True
    then have "blk s k \<noteq> b" using wb k(2) by auto
    then show ?thesis using k ino block(2) nonempty_facts(4) [OF assms(1) True]
      by (simp add: content_def blk_def)
  next
    case False
    then show ?thesis using k ino by (simp add: content_def nonempty_def)
  qed
  have cont: "content s i = take (fsize s i) (block s b)"
    using wb hf(1) by (cases "i \<in> nonempty s") (auto simp: content_def nonempty_def)
  have "?m < 2 ^ 64" using size assms(6) le_bsize_small(2) [OF sh] by simp
  then have "content ?t i = take ?m (overwrite ?off bs (block s b))"
    using ino block(1) by (simp add: content_def blk_def unat_of_nat_size)
  also have "\<dots> = write_at ?off bs (content s i)"
    unfolding cont using hf(4) size assms(6) length_block [OF sh] wb
    by (intro take_overwrite) simp_all
  finally show "content ?t i = write_at ?off bs (content s i)" .
qed

lemma absf_wrote:
  assumes "fs_ok s" and "h \<in> open_handles s" and "i = handle_inum s h"
    and "write_block_ok i b fb s" and "0 < length bs" and "handle_off s h + length bs \<le> bsize s"
  shows "absf (wrote h i b fb bs s) = (absf s)
           \<lparr>a_file := (a_file (absf s))(i \<mapsto> write_at (handle_off s h) bs (content s i)),
            a_open := (a_open (absf s))(h \<mapsto> (i, handle_off s h + length bs))\<rparr>"
proof -
  let ?t = "wrote h i b fb bs s"
  note facts = wrote_facts [OF assms] and hf = handle_facts [OF assms(1,2), folded assms(3)]
  have frame: "freeinode_ts ?t = freeinode_ts s" "free_open_file_entries ?t = free_open_file_entries s"
    by (simp_all add: wrote_def)
  have len: "h < length (arr (open_file_table s))" using hf(5) fs_okD(2) [OF assms(1)] by simp
  have inum: "handle_inum ?t k = handle_inum s k" for k
    using len by (simp add: wrote_def handle_inum_def nth_list_update)
  have off: "handle_off ?t k = handle_off s k" if "k \<noteq> h" for k
    using that len by (simp add: wrote_def nth_list_update)
  have "(\<lambda>k. if k \<in> live_inodes ?t - {0} then Some (content ?t k) else None) =
      (a_file (absf s))(i \<mapsto> write_at (handle_off s h) bs (content s i))"
    using facts(1,2) hf(1,2) by (auto simp: fun_eq_iff absf_def frame)
  moreover have "(\<lambda>k. if k \<in> open_handles ?t then Some (handle_inum ?t k, handle_off ?t k) else None) =
      (a_open (absf s))(h \<mapsto> (i, handle_off s h + length bs))"
    using facts(3) inum off assms(2) by (auto simp: fun_eq_iff absf_def frame assms(3) [symmetric])
  ultimately show ?thesis using facts(4) by (simp add: absf_def)
qed

definition write_count :: "fs_state \<Rightarrow> nat \<Rightarrow> size_t \<Rightarrow> nat" where
  "write_count s h len = min (unat len) (bsize s - handle_off s h)"

text \<open>The three outcomes of a write through an open handle.\<close>

lemma tfs_write_start:
  fixes s h len
  defines "n \<equiv> write_count s h len" and "i \<equiv> handle_inum s h"
  assumes "fs_inv s" and "h \<in> open_handles s" and "unat len < 2 ^ 63"
  shows "tfs_write (int h) buf len s =
    (if n = 0 then Inr (0, s)
     else if fsize s i = 0 then
       res_bind (data_block_alloc (locked s)) (\<lambda>(bnum, s').
       if bnum = - 1 then Inr (unlock_return s' (- 1))
       else
         res_bind (store_inode (Some (int i)) (inode s i\<lparr>i_data_block := bnum\<rparr>) s') (\<lambda>s.
         res_bind (write_bytes (int h) (Some (int i)) buf (of_nat n) s) (\<lambda>s.
           Inr (unlock_return s (int n)))))
     else
       res_bind (write_bytes (int h) (Some (int i)) buf (of_nat n) (locked s)) (\<lambda>s.
         Inr (unlock_return s (int n))))"
proof -
  let ?f = "ofile s h" and ?bs = "block_size (fs_params s)"
  have ok: "fs_ok s" and unlocked: "\<not> g_library_mutex s" using assms(3) by (auto simp: fs_inv_def)
  note sh = fs_okD(2) [OF ok] and hf = handle_facts [OF ok assms(4), folded i_def]
  have i: "i < n_inodes s" by (rule live_bound [OF sh hf(1)])
  have off: "handle_off s h \<le> bsize s"
    using hf(4) fs_okD(5) [OF ok hf(1)] by (simp add: inode_ok_def)
  define w where "w = (if len + of_offset ?f > ?bs then ?bs - of_offset ?f else len)"
  have "unat (of_offset ?f + of_nat (unat len)) = handle_off s h + unat len"
    using le_bsize_small(1) [OF sh off] assms(5) by (intro unat_plus_of_nat) simp
  then have sum: "unat (len + of_offset ?f) = handle_off s h + unat len" by (simp add: add.commute)
  have "of_offset ?f \<le> ?bs" using off by (simp add: word_le_nat_alt)
  then have w: "unat w = n"
    using sum off by (auto simp: w_def n_def write_count_def unat_sub word_less_nat_alt min_def)
  have "n \<le> bsize s" by (simp add: n_def write_count_def)
  then have sint: "sint w = int n" using w le_bsize_small(1) [OF sh] by (intro sint_size)
  have of_n: "of_nat n = w" by (simp add: w [symmetric])
  have w0: "w > 0 \<longleftrightarrow> n \<noteq> 0" using w by (simp add: word_less_nat_alt)
  have size0: "i_size (inode s i) = 0 \<longleftrightarrow> fsize s i = 0"
    by (simp add: unat_eq_0)
  show ?thesis
    using assms(3,4) sh hf(3,5) i unlocked
    by (cases "n = 0"; cases "fsize s i = 0") (simp_all add: tfs_write_def mutex_lock_inv tfs_step state_block_size_def w_def [symmetric]
        Let_def w0 sint of_n size0 cong: if_cong split del: if_split)
qed

lemma unlock_wrote:
  "\<not> g_library_mutex s \<Longrightarrow>
     (wrote h i b fb bs (locked s))\<lparr>g_library_mutex := False\<rparr> = wrote h i b fb bs s"
  by (cases s) (simp add: wrote_def)

lemma unlock_wrote_fresh:
  "\<not> g_library_mutex s \<Longrightarrow> shaped s \<Longrightarrow> i < n_inodes s \<Longrightarrow>
     (wrote h i b fb bs ((locked s)\<lparr>free_blocks := fb', inode_table :=
        Some ((arr (inode_table s))[i := inode s i\<lparr>i_data_block := int b\<rparr>])\<rparr>))
       \<lparr>g_library_mutex := False\<rparr> = wrote h i b fb bs s"
  using shaped_lengths(1) [of s] by (cases s) (simp add: wrote_def)

lemma tfs_write_none:
  assumes "fs_inv s" and "h \<in> open_handles s" and "unat len < 2 ^ 63" and "write_count s h len = 0"
  shows "tfs_write (int h) buf len s = Inr (0, s)"
  using tfs_write_start [OF assms(1-3)] assms(4) by simp

lemma tfs_write_no_space:
  assumes "fs_inv s" and "h \<in> open_handles s" and "unat len < 2 ^ 63" and "0 < write_count s h len"
    and "fsize s (handle_inum s h) = 0" and "used_blocks s = {..<n_blocks s}"
  shows "tfs_write (int h) buf len s = Inr (- 1, s)"
proof -
  have "shaped (locked s)" using assms(1) by (simp add: fs_inv_def fs_ok_def dir_wf_def)
  from blocks.alloc_full [OF this] assms(6)
  have "data_block_alloc (locked s) = Inr (- 1, locked s)" by simp
  then show ?thesis
    using tfs_write_start [OF assms(1-3)] assms(1,4,5) by (simp add: unlock_return_eq unlock_locked)
qed

text \<open>A write to a file that has a block goes into it; a write to an empty file goes into the first
  free block.\<close>

lemma write_room:
  "fs_ok s \<Longrightarrow> h \<in> open_handles s \<Longrightarrow> handle_off s h + write_count s h len \<le> bsize s"
  using handle_facts(1,4) [of s h] fs_okD(5) [of s "handle_inum s h"]
  by (auto simp: inode_ok_def write_count_def min_def)

lemma handle_inum_bound: "fs_ok s \<Longrightarrow> h \<in> open_handles s \<Longrightarrow> handle_inum s h < n_inodes s"
  using handle_facts(1) live_bound [OF fs_okD(2)] by blast

lemma tfs_write_nonempty:
  fixes s h len
  defines "n \<equiv> write_count s h len" and "i \<equiv> handle_inum s h"
  assumes "fs_inv s" and "h \<in> open_handles s" and "unat len < 2 ^ 63" and "0 < n" and "n \<le> length buf"
    and "fsize s i \<noteq> 0"
  shows "write_block_ok i (blk s i) (free_blocks s) s"
    and "tfs_write (int h) buf len s = Inr (int n, wrote h i (blk s i) (free_blocks s) (take n buf) s)"
proof -
  have ok: "fs_ok s" and unlocked: "\<not> g_library_mutex s" using assms(3) by (auto simp: fs_inv_def)
  note sh = fs_okD(2) [OF ok] and hf = handle_facts [OF ok assms(4), folded i_def]
  note start = tfs_write_start [OF assms(3-5), of buf, folded n_def i_def]
  have ne: "i \<in> nonempty s" using hf(1) assms(8) by (simp add: nonempty_def)
  note bf = nonempty_facts [OF ok ne]
  have "blk s ` nonempty s = insert (blk s i) (blk s ` (nonempty s - {i}))" using ne by blast
  moreover have "blk s i \<notin> blk s ` (nonempty s - {i})"
    using fs_okD(6) [OF ok] ne by (auto simp: inj_on_def)
  ultimately show "write_block_ok i (blk s i) (free_blocks s) s"
    using bf(4) shaped_lens(4) [OF sh] fs_okD(7) [OF ok] by (simp add: write_block_ok_def)
  have "write_bytes (int h) (Some (int i)) buf (of_nat n) (locked s) =
      Inr (wrote h i (blk s i) (free_blocks s) (take n buf) (locked s))"
    using write_bytes_eq [of "locked s" i h "blk s i" n buf] sh hf(5) bf(4,5) assms(7)
      write_room [OF ok assms(4), of len, folded n_def] handle_inum_bound [OF ok assms(4), folded i_def]
    by simp
  then show "tfs_write (int h) buf len s =
      Inr (int n, wrote h i (blk s i) (free_blocks s) (take n buf) s)"
    using start assms(6,8) unlocked by (auto simp: unlock_return_eq unlock_wrote)
qed

lemma tfs_write_empty:
  fixes s h len
  defines "n \<equiv> write_count s h len" and "i \<equiv> handle_inum s h"
  assumes "fs_inv s" and "h \<in> open_handles s" and "unat len < 2 ^ 63" and "0 < n" and "n \<le> length buf"
    and "fsize s i = 0" and b: "first_free (arr (free_blocks s)) = Some b"
  defines "fb \<equiv> Some ((arr (free_blocks s))[b := TAKEN])"
  shows "write_block_ok i b fb s"
    and "tfs_write (int h) buf len s = Inr (int n, wrote h i b fb (take n buf) s)"
proof -
  have ok: "fs_ok s" and unlocked: "\<not> g_library_mutex s" using assms(3) by (auto simp: fs_inv_def)
  note sh = fs_okD(2) [OF ok] and hf = handle_facts [OF ok assms(4), folded i_def]
  note start = tfs_write_start [OF assms(3-5), of buf, folded n_def i_def]
  note room = write_room [OF ok assms(4), of len, folded n_def]
    and i = handle_inum_bound [OF ok assms(4), folded i_def] and len = shaped_lens(4) [OF sh]
  note free = first_free_arr_Some [OF len b]
  let ?s2 = "(locked s)\<lparr>free_blocks := fb,
      inode_table := Some ((arr (inode_table s))[i := inode s i\<lparr>i_data_block := int b\<rparr>])\<rparr>"
  have "i \<notin> nonempty s" using assms(8) by (simp add: nonempty_def)
  then show "write_block_ok i b fb s"
    using free len fs_okD(7) [OF ok] sh by (simp add: write_block_ok_def fb_def)
  have "data_block_alloc (locked s) = Inr (int b, (locked s)\<lparr>free_blocks := fb\<rparr>)"
    using data_block_alloc_eq [of "locked s"] sh b by (simp add: fb_def)
  moreover have "store_inode (Some (int i)) (inode s i\<lparr>i_data_block := int b\<rparr>)
      ((locked s)\<lparr>free_blocks := fb\<rparr>) = Inr ?s2"
    using store_inode_eq [of "(locked s)\<lparr>free_blocks := fb\<rparr>" i] sh i by (simp add: fb_def)
  moreover have "write_bytes (int h) (Some (int i)) buf (of_nat n) ?s2 =
      Inr (wrote h i b fb (take n buf) ?s2)"
    using write_bytes_eq [of ?s2 i h b n buf] sh hf(5) free room i assms(7) by (simp add: fb_def)
  moreover have "(wrote h i b fb (take n buf) ?s2)\<lparr>g_library_mutex := False\<rparr> =
      wrote h i b fb (take n buf) s"
    unfolding fb_def by (rule unlock_wrote_fresh [OF unlocked sh i])
  ultimately show "tfs_write (int h) buf len s = Inr (int n, wrote h i b fb (take n buf) s)"
    using start assms(6,8) by (simp add: unlock_return_eq)
qed

lemma tfs_write_some:
  fixes s h len
  defines "n \<equiv> write_count s h len" and "i \<equiv> handle_inum s h"
  assumes "fs_inv s" and "h \<in> open_handles s" and "unat len < 2 ^ 63" and "0 < n"
    and "fsize s i \<noteq> 0 \<or> used_blocks s \<noteq> {..<n_blocks s}" and "n \<le> length buf"
  shows "\<exists>b fb. write_block_ok i b fb s \<and>
           tfs_write (int h) buf len s = Inr (int n, wrote h i b fb (take n buf) s)"
proof (cases "fsize s i = 0")
  case False
  then show ?thesis using tfs_write_nonempty [OF assms(3-5)] assms(6,8) unfolding n_def i_def by blast
next
  case True
  have "shaped s" using assms(3) by (simp add: fs_inv_def fs_ok_def dir_wf_def)
  then obtain b where "first_free (arr (free_blocks s)) = Some b"
    using first_free_arr_None [OF shaped_lens(4)] assms(7) True by blast
  then show ?thesis
    using tfs_write_empty [OF assms(3-5)] assms(6,8) True unfolding n_def i_def by blast
qed

end
