(* ===== verification/AbsFs.thy ===== *)
theory AbsFs
  imports TfsSpec
begin

text \<open>
  The abstract specification of the file system: names, file contents and open handles with
  their offsets (the record \<open>afs\<close> of \<open>TfsSpec\<close>), and one executable function per public
  operation. It knows nothing of tables, blocks or directory entries except their numbers,
  which decide when an operation fails. \<open>TfsRefine\<close> proves that the code's model implements
  it exactly.
\<close>

subsection \<open>Paths\<close>

text \<open>
  The name a path stands for: the string after its leading slash, if that is not empty.
\<close>

definition path_name :: "byte list \<Rightarrow> byte list option" where
  "path_name m = (let c = cstr m in if 1 < length c \<and> hd c = SLASH then Some (tl c) else None)"

lemma valid_pathname_eq:
  "terminated m \<Longrightarrow> valid_pathname (Some m) = Inr (path_name m \<noteq> None)"
  by (cases m) (auto simp: valid_pathname_def path_name_def cstr_simps Let_def)

lemma path_tail:
  assumes "terminated m" and "path_name m = Some nm"
  shows "ptr_plus_1 (Some m) = Some (drop 1 m)" and "terminated (drop 1 m)"
    and "cstr (drop 1 m) = nm" and "nm \<noteq> []" and "0 \<notin> set nm"
proof -
  show tail: "terminated (drop 1 m)" "cstr (drop 1 m) = nm"
    using assms by (cases m; auto simp: path_name_def Let_def split: if_splits)+
  show "nm \<noteq> []" using assms by (cases "cstr m") (auto simp: path_name_def Let_def split: if_splits)
  show "0 \<notin> set nm" using tail(2) by auto
qed (simp add: ptr_plus_1_def)

lemma tfs_lookup_eq:
  assumes "dir_wf s" and "terminated m" and "path_name m = Some nm"
  shows "tfs_lookup s (Some m) (Some 0) = Inr (case dmap s nm of None \<Rightarrow> - 1 | Some i \<Rightarrow> int i)"
  using assms(1) path_tail [OF assms(2,3)]
  by (simp add: tfs_lookup_def valid_pathname_eq assms find_in_root)

text \<open>A name too long for an entry is never in the directory.\<close>

lemma dmap_short:
  assumes "dir_wf s" and "dmap s nm = Some i"
  shows "name_ok nm"
proof -
  have "(nm, i) \<in> set (assoc (dirents s))" using assms(2) by (simp add: dmap_def map_of_SomeD)
  then obtain e where e: "e \<in> set (dirents s)" "snd e \<noteq> - 1" "cstr (fst e) = nm"
    by (auto simp: assoc_def used_entries_def)
  then have "entry_ok e"
    using assms(1) touched_ok_used [OF _ e(1,2)] by (simp add: dir_wf_def entries_ok_def)
  moreover have "length (fst e) \<le> 40" using e(1) by (auto simp: dirents_def entries_def entry_def bytes_at_def)
  ultimately show ?thesis
    using e length_cstr_less [of "fst e"] by (auto simp: name_ok_def entry_ok_def)
qed

lemma length_filter_eq: "length (filter P xs) = length xs \<longleftrightarrow> (\<forall>x \<in> set xs. P x)"
  by (metis filter_True filter_id_conv length_filter_less nat_neq_iff)

lemma dir_full_iff:
  assumes "dir_wf s"
  shows "free_entry (dirents s) = None \<longleftrightarrow> card (dom (dmap s)) = max_dir_entries s"
proof -
  have "card (dom (dmap s)) = length (assoc (dirents s))"
    using assms distinct_card [of "map fst (assoc (dirents s))"]
    by (simp add: dmap_def dom_map_of_conv_image_fst dir_wf_def entries_ok_def)
  also have "\<dots> = length (used_entries (dirents s))" by (simp add: assoc_def)
  finally have "card (dom (dmap s)) = length (filter (\<lambda>e. snd e \<noteq> - 1) (dirents s))" by (simp add: used_entries_def)
  then show ?thesis
    using length_filter_eq [of "\<lambda>e. snd e \<noteq> - 1" "dirents s"]
    by (simp add: free_entry_None_iff)
qed

subsection \<open>The operations on the abstract file system\<close>

text \<open>The least number below \<open>n\<close> not in use.\<close>

definition least_free :: "(nat \<Rightarrow> bool) \<Rightarrow> nat \<Rightarrow> nat option" where
  "least_free used n = find (\<lambda>i. \<not> used i) [0..<n]"

fun name_of :: "c_ptr \<Rightarrow> byte list option" where
  "name_of None = None"
| "name_of (Some m) = path_name m"

definition sp_handle :: "tfs_params \<Rightarrow> nat \<Rightarrow> nat \<Rightarrow> afs \<Rightarrow> int \<times> afs" where
  "sp_handle p i off A =
     (case least_free (\<lambda>h. a_open A h \<noteq> None) (unat (max_open_files_count p)) of
        None \<Rightarrow> (- 1, A)
      | Some h \<Rightarrow> (int h, A\<lparr>a_open := (a_open A)(h \<mapsto> (i, off))\<rparr>))"

definition sp_content :: "afs \<Rightarrow> nat \<Rightarrow> byte list" where
  "sp_content A i = the (a_file A i)"

definition sp_files :: "tfs_params \<Rightarrow> afs \<Rightarrow> nat list" where
  "sp_files p A = filter (\<lambda>i. a_file A i \<noteq> None) [0..<unat (max_inode_count p)]"

definition sp_dir_full :: "tfs_params \<Rightarrow> afs \<Rightarrow> bool" where
  "sp_dir_full p A \<longleftrightarrow> length (sp_files p A) = unat (block_size p) div sizeof_dir_entry"

definition sp_open :: "tfs_params \<Rightarrow> c_ptr \<Rightarrow> tfs_file_mode_t \<Rightarrow> afs \<Rightarrow> int \<times> afs" where
  "sp_open p path mode A =
     (case name_of path of
        None \<Rightarrow> (- 1, A)
      | Some nm \<Rightarrow>
          (case a_dir A nm of
             Some i \<Rightarrow>
               let A = (if has_flag mode TFS_O_TRUNC then A\<lparr>a_file := (a_file A)(i \<mapsto> [])\<rparr> else A)
               in sp_handle p i (if has_flag mode TFS_O_APPEND then length (sp_content A i) else 0) A
           | None \<Rightarrow>
               if has_flag mode TFS_O_CREAT then
                 (case least_free (\<lambda>i. i = 0 \<or> a_file A i \<noteq> None) (unat (max_inode_count p)) of
                    None \<Rightarrow> (- 1, A)
                  | Some i \<Rightarrow>
                      if MAX_FILE_NAME \<le> length nm \<or> sp_dir_full p A then (- 1, A)
                      else sp_handle p i 0 (A\<lparr>a_dir := (a_dir A)(nm \<mapsto> i),
                                             a_file := (a_file A)(i \<mapsto> [])\<rparr>))
               else (- 1, A)))"

definition sp_lookup :: "afs \<Rightarrow> int \<Rightarrow> (nat \<times> nat) option" where
  "sp_lookup A z = (if 0 \<le> z then a_open A (nat z) else None)"

definition sp_close :: "int \<Rightarrow> afs \<Rightarrow> int \<times> afs" where
  "sp_close z A =
     (case sp_lookup A z of
        None \<Rightarrow> (- 1, A)
      | Some _ \<Rightarrow> (0, A\<lparr>a_open := (a_open A)(nat z := None)\<rparr>))"

definition sp_no_space :: "tfs_params \<Rightarrow> afs \<Rightarrow> bool" where
  "sp_no_space p A \<longleftrightarrow>
     Suc (length (filter (\<lambda>i. sp_content A i \<noteq> []) (sp_files p A))) = unat (max_block_count p)"

definition sp_write :: "tfs_params \<Rightarrow> int \<Rightarrow> byte list \<Rightarrow> size_t \<Rightarrow> afs \<Rightarrow> int \<times> afs" where
  "sp_write p z buf len A =
     (case sp_lookup A z of
        None \<Rightarrow> (- 1, A)
      | Some (i, off) \<Rightarrow>
          let n = min (unat len) (unat (block_size p) - off); c = sp_content A i in
          if n = 0 then (0, A)
          else if c = [] \<and> sp_no_space p A then (- 1, A)
          else (int n, A\<lparr>a_file := (a_file A)(i \<mapsto> write_at off (take n buf) c),
                         a_open := (a_open A)(nat z \<mapsto> (i, off + n))\<rparr>))"

definition sp_read :: "int \<Rightarrow> byte list \<Rightarrow> size_t \<Rightarrow> afs \<Rightarrow> int \<times> byte list \<times> afs" where
  "sp_read z buf len A =
     (case sp_lookup A z of
        None \<Rightarrow> (- 1, buf, A)
      | Some (i, off) \<Rightarrow>
          let c = sp_content A i; n = min (unat len) (length c - off) in
          (int n, take n (drop off c) @ drop n buf,
           A\<lparr>a_open := (a_open A)(nat z \<mapsto> (i, off + n))\<rparr>))"

definition sp_unlink :: "c_ptr \<Rightarrow> afs \<Rightarrow> int \<times> afs" where
  "sp_unlink path A =
     (case name_of path of
        None \<Rightarrow> (- 1, A)
      | Some nm \<Rightarrow>
          (case a_dir A nm of
             None \<Rightarrow> (- 1, A)
           | Some i \<Rightarrow> (0, A\<lparr>a_dir := (a_dir A)(nm := None), a_file := (a_file A)(i := None)\<rparr>)))"

subsection \<open>Calls and sequences of calls\<close>

datatype call =
    Open c_ptr tfs_file_mode_t
  | Close int
  | Write int "byte list" size_t
  | Read int "byte list" size_t
  | Unlink c_ptr

datatype reply = Ret int | Bytes int "byte list"

fun spec_call :: "tfs_params \<Rightarrow> call \<Rightarrow> afs \<Rightarrow> reply \<times> afs" where
  "spec_call p (Open path mode) A = (case sp_open p path mode A of (r, A) \<Rightarrow> (Ret r, A))"
| "spec_call p (Close z) A = (case sp_close z A of (r, A) \<Rightarrow> (Ret r, A))"
| "spec_call p (Write z buf len) A = (case sp_write p z buf len A of (r, A) \<Rightarrow> (Ret r, A))"
| "spec_call p (Read z buf len) A = (case sp_read z buf len A of (r, b, A) \<Rightarrow> (Bytes r b, A))"
| "spec_call p (Unlink path) A = (case sp_unlink path A of (r, A) \<Rightarrow> (Ret r, A))"

fun exec_call :: "call \<Rightarrow> fs_state \<Rightarrow> (reply \<times> fs_state) res" where
  "exec_call (Open path mode) s = res_bind (tfs_open path mode s) (\<lambda>(r, s). Inr (Ret r, s))"
| "exec_call (Close z) s = res_bind (tfs_close z s) (\<lambda>(r, s). Inr (Ret r, s))"
| "exec_call (Write z buf len) s = res_bind (tfs_write z buf len s) (\<lambda>(r, s). Inr (Ret r, s))"
| "exec_call (Read z buf len) s =
     res_bind (tfs_read z buf len s) (\<lambda>(r, b, s). Inr (Bytes r b, s))"
| "exec_call (Unlink path) s = res_bind (tfs_unlink path s) (\<lambda>(r, s). Inr (Ret r, s))"

text \<open>
  What the operations ask of their caller: paths are strings, buffers are as long as the
  count, a count fits an \<open>ssize_t\<close>, a file is truncated only while every handle open on it
  stands at its start, and is unlinked only while no handle is open on it.
\<close>

fun path_ok :: "c_ptr \<Rightarrow> bool" where
  "path_ok None = True"
| "path_ok (Some m) = terminated m"

definition offsets_of :: "tfs_params \<Rightarrow> afs \<Rightarrow> nat \<Rightarrow> nat list" where
  "offsets_of p A i = map snd (filter (\<lambda>e. fst e = i)
     (List.map_filter (a_open A) [0..<unat (max_open_files_count p)]))"

text \<open>The offsets of the handles open on the file a path names, if it names one.\<close>

definition open_offsets :: "tfs_params \<Rightarrow> afs \<Rightarrow> c_ptr \<Rightarrow> nat list" where
  "open_offsets p A path =
     (case Option.bind (name_of path) (a_dir A) of None \<Rightarrow> [] | Some i \<Rightarrow> offsets_of p A i)"

fun call_ok :: "tfs_params \<Rightarrow> call \<Rightarrow> afs \<Rightarrow> bool" where
  "call_ok p (Open path mode) A \<longleftrightarrow>
     path_ok path \<and> (has_flag mode TFS_O_TRUNC \<longrightarrow> (\<forall>off \<in> set (open_offsets p A path). off = 0))"
| "call_ok p (Close z) A \<longleftrightarrow> True"
| "call_ok p (Write z buf len) A \<longleftrightarrow> unat len \<le> length buf \<and> len < 2 ^ 63"
| "call_ok p (Read z buf len) A \<longleftrightarrow> unat len \<le> length buf"
| "call_ok p (Unlink path) A \<longleftrightarrow> path_ok path \<and> open_offsets p A path = []"

end
