(* ===== verification/TfsRefine.thy ===== *)
theory TfsRefine
  imports AbsFs
begin

text \<open>
  The code's file system implements the abstract one: from a state that satisfies the
  invariant, each operation returns, keeps the invariant, and its result and the abstract
  view of its final state are what the abstract operation computes.
\<close>

subsection \<open>The numbers behind the abstract failures\<close>


lemma absf_simps [simp]:
  "a_dir (absf s) = dmap s"
  "a_file (absf s) i = (if i \<in> live_inodes s - {0} then Some (content s i) else None)"
  "a_open (absf s) h = (if h \<in> open_handles s then Some (handle_inum s h, handle_off s h) else None)"
  by (simp_all add: absf_def)

lemma absf_mutex [simp]: "absf (s\<lparr>g_library_mutex := b\<rparr>) = absf s"
proof -
  have "dirents (s\<lparr>g_library_mutex := b\<rparr>) = dirents s"
    by (rule dirents_eqI) (simp_all add: root_block_def)
  then show ?thesis by (simp add: absf_def dmap_def content_def blk_def handle_inum_def fun_eq_iff)
qed

lemma least_free_first:
  assumes "has_len a n"
  shows "least_free (\<lambda>i. i \<in> taken_of a) n = first_free (arr a)"
proof (cases "first_free (arr a)")
  case None
  then show ?thesis
    using first_free_arr_None [OF assms] by (auto simp: least_free_def find_None_iff)
next
  case (Some i)
  then show ?thesis
    using first_free_arr_Some [OF assms Some] by (auto simp: least_free_def find_Some_iff)
qed

lemma card_files:
  assumes "fs_ok s"
  shows "set (sp_files (fs_params s) (absf s)) = live_inodes s - {0}"
    and "length (sp_files (fs_params s) (absf s)) = card (dom (dmap s))"
proof -
  show set: "set (sp_files (fs_params s) (absf s)) = live_inodes s - {0}"
    using live_bound [OF fs_okD(2) [OF assms]] by (auto simp: sp_files_def)
  have "dmap s ` dom (dmap s) = Some ` ran (dmap s)" by (auto simp: ran_def dom_def image_iff) force
  then have "card (dom (dmap s)) = card (ran (dmap s))"
    using card_image [OF fs_okD(8) [OF assms]] by (metis card_image inj_Some inj_on_subset top_greatest)
  also have "\<dots> = card (set (sp_files (fs_params s) (absf s)))" using fs_okD(9) [OF assms] set by simp
  also have "\<dots> = length (sp_files (fs_params s) (absf s))"
    by (rule distinct_card) (simp add: sp_files_def)
  finally show "length (sp_files (fs_params s) (absf s)) = card (dom (dmap s))" by simp
qed

lemma sp_dir_full_iff:
  assumes "fs_ok s"
  shows "sp_dir_full (fs_params s) (absf s) \<longleftrightarrow> free_entry (dirents s) = None"
  using dir_full_iff [OF fs_okD(1) [OF assms]] card_files(2) [OF assms]
  by (simp add: sp_dir_full_def max_dir_entries_def)

lemma sp_no_space_iff:
  assumes "fs_ok s"
  shows "sp_no_space (fs_params s) (absf s) \<longleftrightarrow> used_blocks s = {..<n_blocks s}"
proof -
  let ?xs = "filter (\<lambda>i. sp_content (absf s) i \<noteq> []) (sp_files (fs_params s) (absf s))"
  have "content s i \<noteq> [] \<longleftrightarrow> 0 < fsize s i" if "i \<in> live_inodes s" for i
    using content_length [OF assms that] by (metis length_greater_0_conv)
  then have set: "set ?xs = nonempty s - {0}"
    using card_files(1) [OF assms] by (auto simp: sp_content_def nonempty_def)
  have "length ?xs = card (set ?xs)"
    by (rule distinct_card [symmetric]) (simp add: sp_files_def)
  also have "Suc \<dots> = card (nonempty s)"
    unfolding set using root_nonempty(1) [OF assms]
    by (intro card_Suc_Diff1) (simp_all add: nonempty_def)
  also have "\<dots> = card (used_blocks s)"
    using card_image [OF fs_okD(6) [OF assms]] fs_okD(7) [OF assms] by simp
  finally have card: "Suc (length ?xs) = card (used_blocks s)" .
  have "used_blocks s \<subseteq> {..<n_blocks s}"
    using used_bound [OF fs_okD(2) [OF assms]] by auto
  then have "card (used_blocks s) = n_blocks s \<longleftrightarrow> used_blocks s = {..<n_blocks s}"
    by (metis card_lessThan card_subset_eq finite_lessThan)
  then show ?thesis using card by (simp add: sp_no_space_def)
qed

lemma set_offsets_of:
  assumes "fs_ok s"
  shows "set (offsets_of (fs_params s) (absf s) i) =
           handle_off s ` {h \<in> open_handles s. handle_inum s h = i}"
  using open_bound [OF fs_okD(2) [OF assms]]
  by (force simp: offsets_of_def List.map_filter_def)

text \<open>A number that names no open handle.\<close>

lemma sp_lookup_absf:
  "sp_lookup (absf s) z = (if bad_handle s z then None
     else Some (handle_inum s (nat z), handle_off s (nat z)))"
  by (auto simp: sp_lookup_def bad_handle_def)

subsection \<open>Reserving a handle\<close>

definition new_handle :: "nat \<Rightarrow> size_t \<Rightarrow> fs_state \<Rightarrow> int \<times> fs_state" where
  "new_handle i off s = (case first_free (arr (free_open_file_entries s)) of
           None \<Rightarrow> (- 1, s)
         | Some h \<Rightarrow> (int h, s\<lparr>free_open_file_entries :=
                                    Some ((arr (free_open_file_entries s))[h := TAKEN]),
                                  open_file_table := Some ((arr (open_file_table s))
                                    [h := \<lparr>of_inumber = int i, of_offset = off\<rparr>])\<rparr>))"

lemma new_handle_eq: "shaped s \<Longrightarrow> add_to_open_file_table (int i) off s = Inr (new_handle i off s)"
  by (simp add: add_to_open_file_table_eq new_handle_def)

lemma new_handle_params: "new_handle i off s = (r, t) \<Longrightarrow> fs_params t = fs_params s"
  by (auto simp: new_handle_def split: option.splits)

lemma fs_ok_new_handle:
  assumes "fs_ok s" and "i \<in> live_inodes s" and "i \<noteq> 0" and "unat off \<le> fsize s i"
    and "new_handle i off s = (r, t)"
  shows "fs_ok t" and "sp_handle (fs_params s) i (unat off) (absf s) = (r, absf t)"
proof -
  note len = shaped_lens(6) [OF fs_okD(2) [OF assms(1)]]
  have lf: "least_free (\<lambda>h. a_open (absf s) h \<noteq> None) (n_files s) = first_free (arr (free_open_file_entries s))"
    using least_free_first [OF len] by (simp cong: if_cong)
  have "fs_ok t \<and> sp_handle (fs_params s) i (unat off) (absf s) = (r, absf t)"
  proof (cases "first_free (arr (free_open_file_entries s))")
    case None
    then show ?thesis using assms(1,5) lf by (simp add: new_handle_def sp_handle_def)
  next
    case (Some h)
    note h = first_free_arr_Some [OF len Some]
    have t: "r = int h" "t = s\<lparr>free_open_file_entries := Some ((arr (free_open_file_entries s))[h := TAKEN]),
                  open_file_table := Some ((arr (open_file_table s))
                    [h := \<lparr>of_inumber = int i, of_offset = off\<rparr>])\<rparr>"
      using assms(5) Some by (simp_all add: new_handle_def)
    have ok: "fs_ok t" unfolding t(2) using fs_ok_open [OF assms(1)] h assms(2-4) by blast
    have "dirents t = dirents s" by (rule dirents_eqI) (simp_all add: t(2) root_block_def)
    moreover have "h < length (arr (open_file_table s))" using h fs_okD(2) [OF assms(1)] by simp
    ultimately have "absf t = (absf s)\<lparr>a_open := (a_open (absf s))(h \<mapsto> (i, unat off))\<rparr>"
      using h len by (auto simp: absf_def t(2) dmap_def content_def blk_def handle_inum_def fun_eq_iff
          nth_list_update)
    then show ?thesis using ok lf Some t(1) by (simp add: sp_handle_def)
  qed
  then show "fs_ok t" and "sp_handle (fs_params s) i (unat off) (absf s) = (r, absf t)" by blast+
qed

subsection \<open>Refinement of one call\<close>

definition refines :: "fs_state \<Rightarrow> ('a \<times> fs_state) res \<Rightarrow> 'a \<times> afs \<Rightarrow> bool" where
  "refines s res q \<longleftrightarrow>
     (\<exists>r t. res = Inr (r, t) \<and> fs_inv t \<and> fs_params t = fs_params s \<and> q = (r, absf t))"

lemma refinesI:
  "fs_ok t \<Longrightarrow> fs_params t = fs_params s \<Longrightarrow> q = (r, absf t) \<Longrightarrow>
     refines s (Inr (r, t\<lparr>g_library_mutex := False\<rparr>)) q"
  by (simp add: refines_def fs_inv_def)

lemma refines_same: "fs_inv s \<Longrightarrow> q = (r, absf s) \<Longrightarrow> refines s (Inr (r, s)) q"
  by (simp add: refines_def)

subsection \<open>Opening an existing file\<close>

lemma truncated_empty:
  assumes "shaped s" and "i_size (inode s i) = 0"
  shows "truncated i s = s"
proof -
  have "inode s i\<lparr>i_size := 0\<rparr> = inode s i" using assms(2) by (cases "inode s i") simp
  then have "(arr (inode_table s))[i := inode s i\<lparr>i_size := 0\<rparr>] = arr (inode_table s)"
    by (metis list_update_id)
  moreover have "Some (arr (inode_table s)) = inode_table s"
    using has_len_arr [OF shaped_lens(1) [OF assms(1)]] by simp
  ultimately show ?thesis using assms(2) by (simp add: truncated_def freed_blocks_def)
qed

lemma absf_truncated:
  assumes "fs_ok s" and "i \<in> live_inodes s" and "i \<noteq> 0"
  shows "absf (truncated i s) = (absf s)\<lparr>a_file := (a_file (absf s))(i \<mapsto> [])\<rparr>"
proof -
  let ?t = "truncated i s"
  have i: "i < length (arr (inode_table s))"
    using live_bound [OF fs_okD(2) [OF assms(1)] assms(2)] fs_okD(2) [OF assms(1)] by simp
  have ino: "inode ?t k = (if k = i then inode s i\<lparr>i_size := 0\<rparr> else inode s k)" for k
    using i by (simp add: truncated_def nth_list_update)
  have "dirents ?t = dirents s"
    by (rule dirents_eqI) (use ino [of 0] assms(3) in \<open>simp_all add: root_block_def truncated_def\<close>)
  moreover have "content ?t k = (if k = i then [] else content s k)" for k
    using ino [of k] by (simp add: content_def blk_def truncated_def)
  ultimately show ?thesis using assms(2,3)
    by (auto simp: absf_def dmap_def handle_inum_def fun_eq_iff truncated_def)
qed

lemma open_existing_eq:
  fixes mode i s
  defines "t \<equiv> (if has_flag mode TFS_O_TRUNC then truncated i s else s)"
  assumes "fs_ok s" and "i \<in> live_inodes s"
  shows "open_existing (int i) mode s =
           Inr (if has_flag mode TFS_O_APPEND then i_size (inode t i) else 0, t)"
proof -
  note sh = fs_okD(2) [OF assms(2)]
  have i: "i < n_inodes s" by (rule live_bound [OF sh assms(3)])
  show ?thesis
  proof (cases "has_flag mode TFS_O_TRUNC \<and> 0 < i_size (inode s i)")
    case False
    then have "t = s" using truncated_empty [OF sh, of i] by (auto simp: t_def word_gt_0)
    then show ?thesis using False sh i by (auto simp: open_existing_def tfs_step)
  next
    case True
    then have ne: "i \<in> nonempty s" using assms(3) by (simp add: nonempty_def word_less_nat_alt)
    note bf = nonempty_facts [OF assms(2) ne]
    have t: "t = truncated i s" using True by (simp add: t_def)
    have sh': "shaped t" using freed_blocks_facts(1) [OF assms(2,3)] sh
      by (simp add: t truncated_def shaped_def)
    have par: "fs_params t = fs_params s" by (simp add: t truncated_def)
    let ?s1 = "s\<lparr>free_blocks := Some ((arr (free_blocks s))[blk s i := FREE])\<rparr>"
    have "data_block_free (i_data_block (inode s i)) s = Inr ?s1"
      unfolding bf(5) by (rule data_block_free_eq [OF sh bf(4)])
    moreover have "store_inode (Some (int i)) (inode s i\<lparr>i_size := 0\<rparr>) ?s1 = Inr t"
      using store_inode_eq [of ?s1 i] sh i True by (simp add: t truncated_def freed_blocks_def)
    ultimately show ?thesis
      using True sh i load_inode_eq [OF sh', of i] par
      by (simp add: open_existing_def inode_get_eq load_inode_eq del: shaped_upds)
  qed
qed

lemma refine_open_existing:
  assumes "fs_inv s" and "terminated m" and "path_name m = Some nm" and "dmap s nm = Some i"
    and "has_flag mode TFS_O_TRUNC \<Longrightarrow> set (offsets_of (fs_params s) (absf s) i) \<subseteq> {0}"
  shows "refines s (tfs_open (Some m) mode s) (sp_open (fs_params s) (Some m) mode (absf s))"
proof -
  let ?s = "locked s"
  define t where "t = (if has_flag mode TFS_O_TRUNC then truncated i ?s else ?s)"
  define off where "off = (if has_flag mode TFS_O_APPEND then i_size (inode t i) else 0)"
  have ok: "fs_ok s" "fs_ok ?s" using assms(1) by (auto simp: fs_inv_def)
  note sh = fs_okD(2) [OF ok(2)]
  have "i \<in> ran (dmap s)" using assms(4) by (rule ranI)
  then have i: "i \<in> live_inodes ?s" "i \<noteq> 0" using fs_okD(9) [OF ok(1)] by auto
  have dm: "dmap ?s = dmap s" by (metis absf_mutex absf_simps(1))
  have "handle_off ?s h = 0" if "has_flag mode TFS_O_TRUNC" "h \<in> open_handles ?s" "handle_inum ?s h = i" for h
    using assms(5) [OF that(1)] set_offsets_of [OF ok(1)] that(2,3) by (auto simp: handle_inum_def)
  then have okt: "fs_ok t" using fs_ok_truncate [OF ok(2) i] ok(2) unfolding t_def by presburger
  have par: "fs_params t = fs_params s" "live_inodes t = live_inodes s"
    by (simp_all add: t_def truncated_def)
  have abs: "absf t = (if has_flag mode TFS_O_TRUNC
      then (absf s)\<lparr>a_file := (a_file (absf s))(i \<mapsto> [])\<rparr> else absf s)"
    using absf_truncated [OF ok(2) i] by (simp add: t_def)
  have len: "length (sp_content (absf t) i) = fsize t i"
    using content_length [OF okt, of i] i par by (simp add: sp_content_def)
  obtain r u where nh: "new_handle i off t = (r, u)" by fastforce
  have "unat off \<le> fsize t i" by (simp add: off_def)
  from fs_ok_new_handle [OF okt _ i(2) this nh] i(1) par(2)
  have nh': "fs_ok u" "sp_handle (fs_params s) i (unat off) (absf t) = (r, absf u)" by (simp_all add: par)
  have "sp_open (fs_params s) (Some m) mode (absf s) = sp_handle (fs_params s) i (unat off) (absf t)"
    using assms(3,4) len unfolding sp_open_def off_def abs by (simp add: Let_def cong: if_cong)
  moreover have "tfs_open (Some m) mode s = Inr (unlock_return u r)"
  proof -
    have "tfs_lookup ?s (Some m) (Some 0) = Inr (int i)"
      using tfs_lookup_eq [OF fs_okD(1) [OF ok(2)] assms(2,3)] dm assms(4) by simp
    moreover have "open_existing (int i) mode ?s = Inr (off, t)"
      using open_existing_eq [OF ok(2) i(1)] by (simp add: t_def off_def)
    moreover have "inode_get ?s 0 = Inr (Some 0)"
      using inode_get_eq [OF sh live_bound [OF sh fs_okD(3) [OF ok(2)]]] by simp
    ultimately show ?thesis
      using assms(2,3) new_handle_eq [OF fs_okD(2) [OF okt], of i off] nh
      by (simp add: tfs_open_def mutex_lock_inv [OF assms(1)] valid_pathname_eq ROOT_DIR_INUM_def)
  qed
  ultimately show ?thesis
    using nh' new_handle_params [OF nh] par by (simp add: unlock_return_eq refinesI)
qed

subsection \<open>Creating a file\<close>

lemma content_put_dirent:
  assumes "dir_wf s" and "j < max_dir_entries s" and "length nm < 40" and "- 1 \<le> x" and "x < 2 ^ 31"
    and "0 < fsize s k \<Longrightarrow> blk s k < n_blocks s \<and> blk s k \<noteq> root_block s"
  shows "content (put_dirent j nm x s) k = content s k"
  using put_dirent_effect(3) [OF assms(1-5), of "blk s k"] assms(6)
  by (cases "0 < fsize s k") (simp_all add: content_def blk_def)

text \<open>Undoing the creation of an inode leaves a dead inode behind, and nothing visible.\<close>

lemma inode_create_undo:
  assumes "fs_ok s" and "i \<notin> live_inodes s" and "i < n_inodes s"
  defines "t \<equiv> s\<lparr>inode_table := Some ((arr (inode_table s))[i := fresh_file])\<rparr>"
  shows "inode_delete (int i) (created i s) = Inr t" and "fs_ok t" and "absf t = absf s"
proof -
  note sh = fs_okD(2) [OF assms(1)] and fr = dead_inode_frame [OF assms(1-3), where r = fresh_file, folded t_def]
  show "fs_ok t" unfolding t_def by (rule fs_ok_dead_inode [OF assms(1-3)])
  have sh': "shaped (created i s)" using created_frame(4) [OF assms(1-3)] by (simp add: dir_wf_def)
  have live: "i \<in> live_inodes (created i s)" using created_frame(3) [OF assms(1-3)] by simp
  have "i_size (inode (created i s) i) = 0"
    using created_frame(2) [OF assms(1-3)] by (simp add: fresh_file_def)
  moreover have "(arr (freeinode_ts s))[i := FREE] = arr (freeinode_ts s)"
    using assms(2,3) sh by (metis TAKEN_FREE_iff(1) list_update_id shaped_lengths(2) taken_of_iff)
  moreover have "Some (arr (freeinode_ts s)) = freeinode_ts s"
    using has_len_arr [OF shaped_lens(2) [OF sh]] by simp
  ultimately show "inode_delete (int i) (created i s) = Inr t"
    using inode_delete_eq [OF sh' live] by (simp add: created_def t_def)
  have same: "inode t k = inode s k" if "k \<in> live_inodes s" for k using fr(1) [OF that] .
  then have "content t k = content s k" if "k \<in> live_inodes s" for k
    using that by (simp add: content_def blk_def t_def)
  then show "absf t = absf s"
    using fr(5) by (auto simp: absf_def handle_inum_def fun_eq_iff t_def)
qed

lemma absf_create:
  assumes "fs_ok s" and "i \<notin> live_inodes s" and "i < n_inodes s"
    and "name_ok nm" and "dmap s nm = None" and "free_entry (dirents s) = Some j"
  shows "absf (put_dirent j nm (int i) (created i s)) =
           (absf s)\<lparr>a_dir := (dmap s)(nm \<mapsto> i), a_file := (a_file (absf s))(i \<mapsto> [])\<rparr>"
proof -
  let ?c = "created i s" and ?t = "put_dirent j nm (int i) (created i s)"
  note fr = created_frame [OF assms(1-3)] and d = fs_ok_create(2) [OF assms]
  have i0: "i \<noteq> 0" using fs_okD(3) [OF assms(1)] assms(2) by metis
  have i31: "int i < 2 ^ 31"
    using assms(3) fs_okD(2) [OF assms(1)] by (simp add: shaped_def params_ok_def)
  have j: "j < max_dir_entries ?c" using free_entry_SomeD [OF assms(6)] by (simp add: created_def max_dir_entries_def)
  have nm: "length nm < 40" using assms(4) by (simp add: name_ok_def)
  have par: "fs_params ?c = fs_params s" "open_file_table ?c = open_file_table s"
    "free_open_file_entries ?c = free_open_file_entries s" by (simp_all add: created_def)
  have old: "content ?c k = content s k" if "k \<in> live_inodes s" for k
    using fr(1) [OF that] fr(8) by (simp add: content_def blk_def)
  have new: "content ?c i = []" using fr(2) by (simp add: content_def fresh_file_def)
  have "content ?t k = content ?c k" if "k \<in> insert i (live_inodes s)" "k \<noteq> 0" for k
  proof (rule content_put_dirent [OF fr(4) j nm _ i31])
    assume pos: "0 < fsize ?c k"
    then have "k \<in> live_inodes s" using that(1) fr(2) by (auto simp: fresh_file_def)
    then have "k \<in> nonempty s" "blk ?c k = blk s k"
      using fr(1) [of k] pos by (simp_all add: nonempty_def blk_def)
    then show "blk ?c k < n_blocks ?c \<and> blk ?c k \<noteq> root_block ?c"
      using nonempty_facts(4,6) [OF assms(1)] that(2) fr(7) par by simp
  qed simp
  then have "content ?t k = (if k = i then [] else content s k)" if "k \<in> insert i (live_inodes s)" "k \<noteq> 0" for k
    using that old new by auto
  then show ?thesis using d fr(3) i0 par assms(2)
    by (auto simp: absf_def handle_inum_def fun_eq_iff)
qed

lemma inode_create_least:
  assumes "fs_ok s"
  shows "inode_create T_FILE s =
    Inr (case least_free (\<lambda>i. i = 0 \<or> a_file (absf s) i \<noteq> None) (n_inodes s) of
           None \<Rightarrow> (- 1, s) | Some i \<Rightarrow> (int i, created i s))"
proof -
  have "(\<lambda>i. i = 0 \<or> a_file (absf s) i \<noteq> None) = (\<lambda>i. i \<in> live_inodes s)"
    using fs_okD(3) [OF assms] by (auto simp: fun_eq_iff)
  then show ?thesis
    using inode_create_file_eq [OF fs_okD(2) [OF assms]]
      least_free_first [OF shaped_lens(2) [OF fs_okD(2) [OF assms]]]
    by (simp add: created_def split: option.split)
qed

lemma least_free_inode:
  assumes "fs_ok s"
    and "least_free (\<lambda>i. i = 0 \<or> a_file (absf s) i \<noteq> None) (n_inodes s) = Some i"
  shows "i < n_inodes s" and "i \<notin> live_inodes s" and "i \<noteq> 0"
  using assms(2) by (auto simp: least_free_def find_Some_iff split: if_splits)

lemma tfs_open_absent:
  assumes "fs_inv s" and "terminated m" and "path_name m = Some nm" and "dmap s nm = None"
  shows "tfs_open (Some m) mode s =
    (if has_flag mode TFS_O_CREAT then
       res_bind (inode_create T_FILE (locked s)) (\<lambda>(inum, s).
       if inum = - 1 then Inr (unlock_return s (- 1))
       else
         res_bind (add_dir_entry (Some 0) (Some (drop 1 m)) inum s) (\<lambda>(r, s).
         if r = - 1 then
           res_bind (inode_delete inum s) (\<lambda>s. Inr (unlock_return s (- 1)))
         else
           res_bind (add_to_open_file_table inum 0 s) (\<lambda>(ret, s).
             Inr (unlock_return s ret))))
     else Inr (- 1, s))"
proof -
  let ?s = "locked s"
  have ok: "fs_ok ?s" using assms(1) by (simp add: fs_inv_def)
  note sh = fs_okD(2) [OF ok]
  have "dmap ?s = dmap s" by (metis absf_mutex absf_simps(1))
  then have "tfs_lookup ?s (Some m) (Some 0) = Inr (- 1)"
    using tfs_lookup_eq [OF fs_okD(1) [OF ok] assms(2,3)] assms(4) by simp
  moreover have "inode_get ?s 0 = Inr (Some 0)"
    using inode_get_eq [OF sh live_bound [OF sh fs_okD(3) [OF ok]]] by simp
  ultimately show ?thesis
    using assms path_tail(1) [OF assms(2,3)]
    by (simp add: tfs_open_def mutex_lock_inv valid_pathname_eq ROOT_DIR_INUM_def unlock_return_eq
        unlock_locked cong: if_cong)
qed

text \<open>Creating the file: what follows the allocation of inode \<open>i\<close>, with the directory full or the
  name too long, and with room for the entry.\<close>

definition after_create :: "byte list \<Rightarrow> nat \<Rightarrow> fs_state \<Rightarrow> (int \<times> fs_state) res" where
  "after_create m i s =
     res_bind (add_dir_entry (Some 0) (Some (drop 1 m)) (int i) (created i (locked s))) (\<lambda>(r, s).
     if r = - 1 then res_bind (inode_delete (int i) s) (\<lambda>s. Inr (unlock_return s (- 1)))
     else res_bind (add_to_open_file_table (int i) 0 s) (\<lambda>(ret, s). Inr (unlock_return s ret)))"

lemma refine_create_no_entry:
  assumes "fs_inv s" and "terminated m" and "path_name m = Some nm"
    and i: "i \<notin> live_inodes s" "i < n_inodes s" "i \<noteq> 0"
    and full: "40 \<le> length nm \<or> sp_dir_full (fs_params s) (absf s)"
  shows "refines s (after_create m i s) (- 1, absf s)"
proof -
  let ?s = "locked s" and ?c = "created i (locked s)"
  note pt = path_tail [OF assms(2,3)]
  have ok: "fs_ok ?s" "i \<notin> live_inodes ?s" "i < n_inodes ?s" using assms(1) i by (auto simp: fs_inv_def)
  note undo = inode_create_undo [OF ok] and fr = created_frame [OF ok]
  have "add_dir_entry (Some 0) (Some (drop 1 m)) (int i) ?c = Inr (- 1, ?c)"
  proof (cases "40 \<le> length nm")
    case True
    then show ?thesis using add_in_root_bad_name [OF pt(2)] pt(3) by simp
  next
    case False
    have "absf ?s = absf s" by simp
    then have "free_entry (dirents ?c) = None"
      using full False sp_dir_full_iff [OF ok(1)] fr(6) by simp
    then show ?thesis using add_in_root [OF fr(4) pt(2)] pt(3,4) False by simp
  qed
  then show ?thesis
    using undo refinesI [OF undo(2), of s "(- 1, absf s)" "- 1"]
    by (simp add: after_create_def unlock_return_eq)
qed

lemma refine_create_entry:
  assumes "fs_inv s" and "terminated m" and "path_name m = Some nm" and "dmap s nm = None"
    and i: "i \<notin> live_inodes s" "i < n_inodes s" "i \<noteq> 0"
    and room: "\<not> 40 \<le> length nm" "\<not> sp_dir_full (fs_params s) (absf s)"
  shows "refines s (after_create m i s) (sp_handle (fs_params s) i 0
    ((absf s)\<lparr>a_dir := (dmap s)(nm \<mapsto> i), a_file := (a_file (absf s))(i \<mapsto> [])\<rparr>))"
proof -
  let ?s = "locked s" and ?c = "created i (locked s)"
  note pt = path_tail [OF assms(2,3)]
  have ok: "fs_ok ?s" "i \<notin> live_inodes ?s" "i < n_inodes ?s" using assms(1) i by (auto simp: fs_inv_def)
  have same: "dmap ?s = dmap s" "absf ?s = absf s" by (metis absf_mutex absf_simps(1)) simp
  note fr = created_frame [OF ok]
  have nm: "name_ok nm" using pt(4,5) room(1) by (simp add: name_ok_def)
  obtain j where j: "free_entry (dirents ?s) = Some j"
    using room(2) sp_dir_full_iff [OF ok(1)] same(2) by auto
  let ?d = "put_dirent j nm (int i) ?c"
  have none: "dmap ?s nm = None" using assms(4) same(1) by simp
  note okd = fs_ok_create [OF ok nm none j] and absd = absf_create [OF ok nm none j]
  have add: "add_dir_entry (Some 0) (Some (drop 1 m)) (int i) ?c = Inr (0, ?d)"
    using add_in_root [OF fr(4) pt(2)] pt(3,4) nm fr(6) j by (simp add: name_ok_def)
  obtain r u where nh: "new_handle i 0 ?d = (r, u)" by fastforce
  have par: "fs_params ?d = fs_params s" "live_inodes ?d = insert i (live_inodes s)"
    using fr(3) by (simp_all add: created_def)
  have "fs_ok u" "sp_handle (fs_params s) i 0 (absf ?d) = (r, absf u)"
    using fs_ok_new_handle [OF okd(1) _ i(3) _ nh] par by simp_all
  then show ?thesis
    using add nh new_handle_eq [OF fs_okD(2) [OF okd(1)], of i 0] absd same
      new_handle_params [OF nh] par
    by (simp add: after_create_def unlock_return_eq refinesI)
qed

lemma refine_create:
  assumes "fs_inv s" and "terminated m" and "path_name m = Some nm" and "dmap s nm = None"
    and "has_flag mode TFS_O_CREAT"
  shows "refines s (tfs_open (Some m) mode s) (sp_open (fs_params s) (Some m) mode (absf s))"
proof -
  let ?s = "locked s" and ?p = "fs_params s"
  have ok: "fs_ok s" "fs_ok ?s" using assms(1) by (auto simp: fs_inv_def)
  have same: "absf ?s = absf s" by simp
  define F where "F = least_free (\<lambda>i. i = 0 \<or> a_file (absf s) i \<noteq> None) (n_inodes s)"
  have ic: "inode_create T_FILE ?s = Inr (case F of None \<Rightarrow> (- 1, ?s) | Some i \<Rightarrow> (int i, created i ?s))"
    using inode_create_least [OF ok(2)] unfolding F_def same by simp
  note start = tfs_open_absent [OF assms(1-4), of mode]
  have spec: "sp_open ?p (Some m) mode (absf s) =
      (case F of None \<Rightarrow> (- 1, absf s)
       | Some i \<Rightarrow> if 40 \<le> length nm \<or> sp_dir_full ?p (absf s) then (- 1, absf s)
                   else sp_handle ?p i 0 ((absf s)\<lparr>a_dir := (dmap s)(nm \<mapsto> i),
                                  a_file := (a_file (absf s))(i \<mapsto> [])\<rparr>))"
    using assms(3-5) by (simp only: sp_open_def F_def name_of.simps option.case absf_simps(1)
        MAX_FILE_NAME_def if_True)
  show ?thesis
  proof (cases F)
    case None
    show ?thesis
      unfolding start ic spec None using assms(1,5)
      by (simp add: unlock_return_eq unlock_locked refines_same)
  next
    case (Some i)
    note i = least_free_inode(2,1,3) [OF ok(1) Some [unfolded F_def]]
    have "tfs_open (Some m) mode s = after_create m i s"
      unfolding start ic Some after_create_def using assms(5) by simp
    then show ?thesis
      unfolding spec Some
      using refine_create_no_entry [OF assms(1-3) i] refine_create_entry [OF assms(1-4) i] by simp
  qed
qed

lemma refine_open:
  assumes "fs_inv s" and "call_ok (fs_params s) (Open path mode) (absf s)"
  shows "refines s (tfs_open path mode s) (sp_open (fs_params s) path mode (absf s))"
proof (cases "name_of path")
  case None
  have "valid_pathname path = Inr False"
    using None assms(2) valid_pathname_eq by (cases path) (auto simp: valid_pathname_def)
  then show ?thesis
    using assms(1) None by (simp add: tfs_open_def mutex_lock_inv unlock_return_eq unlock_locked
        sp_open_def refines_same)
next
  case (Some nm)
  then obtain m where m: "path = Some m" "path_name m = Some nm" by (cases path) auto
  have t: "terminated m" using assms(2) m by simp
  show ?thesis
  proof (cases "dmap s nm")
    case None
    show ?thesis
    proof (cases "has_flag mode TFS_O_CREAT")
      case True
      then show ?thesis using refine_create [OF assms(1) t m(2) None] m by simp
    next
      case False
      then show ?thesis
        using tfs_open_absent [OF assms(1) t m(2) None, of mode] m None assms(1)
        by (simp add: sp_open_def refines_same)
    qed
  next
    case (Some i)
    show ?thesis
      unfolding m(1)
      by (rule refine_open_existing [OF assms(1) t m(2) Some])
        (use assms(2) m Some in \<open>auto simp: open_offsets_def\<close>)
  qed
qed

subsection \<open>Closing, reading, writing and unlinking\<close>

lemma handle_cases:
  assumes "\<not> bad_handle s z"
  obtains h where "z = int h" and "h \<in> open_handles s"
  using assms that [of "nat z"] by (auto simp: bad_handle_def)

lemma refinesI': "res = Inr (r, t) \<Longrightarrow> fs_inv t \<Longrightarrow> fs_params t = fs_params s \<Longrightarrow> q = (r, absf t) \<Longrightarrow>
    refines s res q"
  by (simp add: refines_def)

lemma refine_close:
  assumes "fs_inv s"
  shows "refines s (tfs_close z s) (sp_close z (absf s))"
proof (cases "bad_handle s z")
  case True
  then show ?thesis using bad_handle_ops(1) [OF assms True] assms
    by (simp add: sp_close_def sp_lookup_absf refines_same)
next
  case False
  then obtain h where h: "z = int h" "h \<in> open_handles s" by (rule handle_cases)
  have "fs_params (closed h s) = fs_params s" by (simp add: closed_def)
  then show ?thesis
    using tfs_close_eq [OF assms h(2)] fs_inv_closed [OF assms] absf_closed [OF assms] h False
    by (intro refinesI' [where r = 0 and t = "closed h s"]) (simp_all add: sp_close_def sp_lookup_absf)
qed

lemma sp_write_cases:
  assumes "fs_ok s" and "h \<in> open_handles s"
  shows "sp_write (fs_params s) (int h) buf len (absf s) =
    (let i = handle_inum s h; n = write_count s h len in
     if n = 0 then (0, absf s)
     else if fsize s i = 0 \<and> used_blocks s = {..<n_blocks s} then (- 1, absf s)
     else (int n, (absf s)
         \<lparr>a_file := (a_file (absf s))(i \<mapsto> write_at (handle_off s h) (take n buf) (content s i)),
          a_open := (a_open (absf s))(h \<mapsto> (i, handle_off s h + n))\<rparr>))"
proof -
  let ?i = "handle_inum s h"
  note hf = handle_facts [OF assms]
  have cont: "sp_content (absf s) ?i = content s ?i" using hf by (simp add: sp_content_def)
  have empty: "content s ?i = [] \<longleftrightarrow> fsize s ?i = 0"
    using content_length [OF assms(1) hf(1)] by (metis length_0_conv)
  have "\<not> bad_handle s (int h)" using assms(2) by (simp add: bad_handle_def)
  then show ?thesis
    using sp_no_space_iff [OF assms(1)]
    by (simp add: sp_write_def sp_lookup_absf cont empty write_count_def [symmetric] Let_def
        cong: if_cong split del: if_split del: absf_simps)
qed

lemma refine_write:
  assumes "fs_inv s" and "unat len \<le> length buf" and "unat len < 2 ^ 63"
  shows "refines s (tfs_write z buf len s) (sp_write (fs_params s) z buf len (absf s))"
proof (cases "bad_handle s z")
  case True
  then show ?thesis using bad_handle_ops(2) [OF assms(1) True] assms(1)
    by (simp add: sp_write_def sp_lookup_absf refines_same)
next
  case False
  then obtain h where h: "z = int h" "h \<in> open_handles s" by (rule handle_cases)
  have ok: "fs_ok s" using assms(1) by (simp add: fs_inv_def)
  let ?i = "handle_inum s h" and ?n = "write_count s h len"
  note spec = sp_write_cases [OF ok h(2), of buf len, unfolded Let_def]
  show ?thesis
  proof (cases "?n = 0 \<or> fsize s ?i = 0 \<and> used_blocks s = {..<n_blocks s}")
    case True
    then show ?thesis
      unfolding h(1) spec
      using tfs_write_none [OF assms(1) h(2) assms(3)] tfs_write_no_space [OF assms(1) h(2) assms(3)]
      by (cases "?n = 0") (simp_all add: refines_same assms(1))
  next
    case some: False
    then have n: "0 < ?n" "?n \<le> length buf" using assms(2) by (auto simp: write_count_def)
    have space: "fsize s ?i \<noteq> 0 \<or> used_blocks s \<noteq> {..<n_blocks s}" using some by simp
    obtain b fb where w: "write_block_ok ?i b fb s"
      "tfs_write (int h) buf len s = Inr (int ?n, wrote h ?i b fb (take ?n buf) s)"
      using tfs_write_some [OF assms(1) h(2) assms(3) n(1) space n(2)] by (elim exE conjE) (rule that)
    have pos: "0 < length (take ?n buf)" and len: "length (take ?n buf) = ?n" using n by auto
    have room: "handle_off s h + length (take ?n buf) \<le> bsize s"
      using write_room [OF ok h(2), of len] len by simp
    have "fs_inv (wrote h ?i b fb (take ?n buf) s)"
      using wrote_ok [OF ok h(2) refl w(1) pos room] assms(1) by (simp add: fs_inv_def wrote_def)
    then show ?thesis
      using w(2) spec some absf_wrote [OF ok h(2) refl w(1) pos room] len h(1)
      by (intro refinesI' [where r = "int ?n" and t = "wrote h ?i b fb (take ?n buf) s"])
        (simp_all add: wrote_def)
  qed
qed

lemma refine_read:
  assumes "fs_inv s" and "unat len \<le> length buf"
  shows "\<exists>r b t. tfs_read z buf len s = Inr (r, b, t) \<and> fs_inv t \<and> fs_params t = fs_params s \<and>
           sp_read z buf len (absf s) = (r, b, absf t)"
proof (cases "bad_handle s z")
  case True
  then show ?thesis using bad_handle_ops(3) [OF assms(1) True] assms(1)
    by (simp add: sp_read_def sp_lookup_absf)
next
  case False
  then obtain h where h: "z = int h" "h \<in> open_handles s" by (rule handle_cases)
  have ok: "fs_ok s" using assms(1) by (simp add: fs_inv_def)
  let ?i = "handle_inum s h" and ?n = "read_count s h len"
  note hf = handle_facts [OF ok h(2)]
  have n: "?n \<le> length buf" "handle_off s h + ?n \<le> fsize s ?i"
    using assms(2) hf(4) by (auto simp: read_count_def)
  have "sp_read z buf len (absf s) =
      (int ?n, take ?n (drop (handle_off s h) (content s ?i)) @ drop ?n buf, absf (moved h ?n s))"
    unfolding absf_moved [OF assms(1) h(2) n(2)]
    using h False hf(1,2) content_length [OF ok hf(1)]
    by (simp add: sp_read_def sp_lookup_absf sp_content_def read_count_def Let_def)
  then show ?thesis
    using tfs_read_eq [OF assms(1) h(2) n(1)] fs_inv_moved [OF assms(1) h(2) n(2)] h(1)
    by (simp add: moved_def)
qed

lemma absf_delete:
  assumes "fs_ok s" and "dmap s nm = Some i" and "nm \<noteq> []" and "quiescent s i"
    and "named_entry (dirents s) nm = Some j"
  shows "absf (put_dirent j [] (- 1) (deleted i s)) =
           (absf s)\<lparr>a_dir := (dmap s)(nm := None), a_file := (a_file (absf s))(i := None)\<rparr>"
proof -
  let ?c = "deleted i s" and ?t = "put_dirent j [] (- 1) (deleted i s)"
  have "i \<in> ran (dmap s)" using assms(2) by (rule ranI)
  then have i: "i \<in> live_inodes s" "i \<noteq> 0" using fs_okD(9) [OF assms(1)] by auto
  note fr = deleted_frame [OF assms(1) i] and d = fs_ok_delete(2) [OF assms]
  have j: "j < max_dir_entries ?c"
    using named_entry_SomeD [OF assms(5)] by (simp add: deleted_def max_dir_entries_def)
  have par: "fs_params ?c = fs_params s" "inode_table ?c = inode_table s"
    "open_file_table ?c = open_file_table s" "free_open_file_entries ?c = free_open_file_entries s"
    by (simp_all add: deleted_def)
  have old: "content ?c k = content s k" for k using fr(5) par by (simp add: content_def blk_def)
  have "content ?t k = content ?c k" if "k \<in> live_inodes s" "k \<noteq> 0" for k
  proof (rule content_put_dirent [OF fr(1) j])
    assume "0 < fsize ?c k"
    then have "k \<in> nonempty s" using that(1) par by (simp add: nonempty_def)
    then show "blk ?c k < n_blocks ?c \<and> blk ?c k \<noteq> root_block ?c"
      using nonempty_facts(4,6) [OF assms(1)] that(2) fr(4) par by (simp add: blk_def)
  qed simp_all
  then show ?thesis using d fr(6) old i par
    by (auto simp: absf_def handle_inum_def fun_eq_iff)
qed

text \<open>The part of \<open>tfs_unlink\<close> behind the test of the path.\<close>

lemma tfs_unlink_valid:
  assumes "fs_inv s" and "terminated m" and "path_name m = Some nm"
  shows "tfs_unlink (Some m) s =
    (case dmap s nm of
       None \<Rightarrow> Inr (- 1, s)
     | Some i \<Rightarrow>
         res_bind (inode_delete (int i) (locked s)) (\<lambda>s.
         res_bind (clear_dir_entry (Some 0) (Some (drop 1 m)) s) (\<lambda>(r, s).
           if r = - 1 then Inr (unlock_return s (- 1)) else Inr (unlock_return s 0))))"
proof -
  let ?s = "locked s"
  have ok: "fs_ok ?s" using assms(1) by (simp add: fs_inv_def)
  note sh = fs_okD(2) [OF ok]
  have "dmap ?s = dmap s" by (metis absf_mutex absf_simps(1))
  then have look: "tfs_lookup ?s (Some m) (Some 0) =
      Inr (case dmap s nm of None \<Rightarrow> - 1 | Some i \<Rightarrow> int i)"
    using tfs_lookup_eq [OF fs_okD(1) [OF ok] assms(2,3)] by simp
  have "inode_get ?s 0 = Inr (Some 0)"
    using inode_get_eq [OF sh live_bound [OF sh fs_okD(3) [OF ok]]] by simp
  then show ?thesis
    using assms(1,3) look path_tail(1) [OF assms(2,3)]
    by (simp add: tfs_unlink_def mutex_lock_inv ROOT_DIR_INUM_def valid_pathname_eq [OF assms(2)]
        unlock_return_eq unlock_locked split: option.split)
qed

lemma refine_unlink_entry:
  assumes "fs_inv s" and "terminated m" and "path_name m = Some nm" and "dmap s nm = Some i"
    and "open_offsets (fs_params s) (absf s) (Some m) = []"
  shows "refines s (tfs_unlink (Some m) s) (sp_unlink (Some m) (absf s))"
proof -
  let ?s = "locked s"
  note pt = path_tail [OF assms(2,3)]
  have ok: "fs_ok s" "fs_ok ?s" using assms(1) by (auto simp: fs_inv_def)
  have same: "dmap ?s = dmap s" "absf ?s = absf s" by (metis absf_mutex absf_simps(1)) simp
  have dm: "dmap ?s nm = Some i" using assms(4) same by simp
  have "set (offsets_of (fs_params s) (absf s) i) = {}"
    using assms(3-5) by (simp add: open_offsets_def)
  then have q: "quiescent ?s i"
    using set_offsets_of [OF ok(1)] by (auto simp: quiescent_def handle_inum_def)
  have "i \<in> ran (dmap ?s)" using dm by (rule ranI)
  then have i: "i \<in> live_inodes ?s" "i \<noteq> 0" using fs_okD(9) [OF ok(2)] by auto
  have "dmap ?s nm \<noteq> None" using dm by simp
  with fs_okD(1) [OF ok(2)] pt(4) obtain j where j: "named_entry (dirents ?s) nm = Some j"
    by (rule dmap_entry)
  note fr = deleted_frame [OF ok(2) i]
  let ?t = "put_dirent j [] (- 1) (deleted i ?s)"
  have "clear_dir_entry (Some 0) (Some (drop 1 m)) (deleted i ?s) = Inr (0, ?t)"
    using clear_in_root [OF fr(1) pt(2)] pt(3,4) fr(2,3) j dm by simp
  then have "tfs_unlink (Some m) s = Inr (0, ?t\<lparr>g_library_mutex := False\<rparr>)"
    using tfs_unlink_valid [OF assms(1-3)] assms(4) inode_delete_fs [OF ok(2) i(1)]
    by (simp add: unlock_return_eq)
  moreover have "sp_unlink (Some m) (absf s) = (0, absf ?t)"
    unfolding absf_delete [OF ok(2) dm pt(4) q j] using assms(3,4) same by (simp add: sp_unlink_def)
  moreover have "fs_params ?t = fs_params s" by (simp add: deleted_def)
  ultimately show ?thesis using refinesI [OF fs_ok_delete(1) [OF ok(2) dm pt(4) q j]] by metis
qed

lemma refine_unlink:
  assumes "fs_inv s" and "call_ok (fs_params s) (Unlink path) (absf s)"
  shows "refines s (tfs_unlink path s) (sp_unlink path (absf s))"
proof (cases "name_of path")
  case None
  have "valid_pathname path = Inr False"
    using None assms(2) valid_pathname_eq by (cases path) (auto simp: valid_pathname_def)
  then show ?thesis
    using assms(1) None by (simp add: tfs_unlink_def mutex_lock_inv unlock_return_eq unlock_locked
        sp_unlink_def refines_same)
next
  case (Some nm)
  then obtain m where m: "path = Some m" "path_name m = Some nm" by (cases path) auto
  have t: "terminated m" using assms(2) m by simp
  show ?thesis
  proof (cases "dmap s nm")
    case None
    then show ?thesis using assms(1) m tfs_unlink_valid [OF assms(1) t m(2)]
      by (simp add: sp_unlink_def refines_same)
  next
    case (Some i)
    then show ?thesis using refine_unlink_entry [OF assms(1) t m(2) Some] assms(2) m(1) by simp
  qed
qed

text \<open>Every call the specification allows, from any state that satisfies the invariant.\<close>

lemma refines_map:
  "refines s res q \<Longrightarrow>
     refines s (res_bind res (\<lambda>(r, s). Inr (f r, s))) (case q of (r, A) \<Rightarrow> (f r, A))"
  by (auto simp: refines_def)

lemma refine_call:
  assumes "fs_inv s" and "call_ok (fs_params s) c (absf s)"
  shows "refines s (exec_call c s) (spec_call (fs_params s) c (absf s))"
proof (cases c)
  case (Open path mode)
  then show ?thesis
    unfolding Open exec_call.simps spec_call.simps
    using assms(2) Open by (intro refines_map refine_open [OF assms(1)]) simp
next
  case (Close z)
  show ?thesis
    unfolding Close exec_call.simps spec_call.simps by (intro refines_map refine_close assms)
next
  case (Write z buf len)
  show ?thesis
    unfolding Write exec_call.simps spec_call.simps
    using assms(2) Write
    by (intro refines_map refine_write assms) (simp_all add: word_less_nat_alt)
next
  case (Read z buf len)
  then have "unat len \<le> length buf" using assms(2) by simp
  from refine_read [OF assms(1) this, of z] obtain r b t where
    "tfs_read z buf len s = Inr (r, b, t)" "fs_inv t" "fs_params t = fs_params s"
    "sp_read z buf len (absf s) = (r, b, absf t)" by blast
  then show ?thesis unfolding Read exec_call.simps spec_call.simps by (simp add: refines_def)
next
  case (Unlink path)
  then show ?thesis
    unfolding Unlink exec_call.simps spec_call.simps
    using assms(2) Unlink by (intro refines_map refine_unlink [OF assms(1)]) simp
qed

end
