(* ===== verification/TfsInit.thy ===== *)
theory TfsInit
  imports TfsRefine
begin

text \<open>
  Starting and stopping the file system: \<open>tfs_init\<close> establishes the invariant with the empty
  abstract file system, so every sequence of allowed calls that follows behaves as specified.
\<close>

subsection \<open>The arrays after initialisation\<close>

lemma fill_free_eq:
  "i + k = length xs \<Longrightarrow> fill_free (Some xs) i k = Inr (Some (take i xs @ replicate k FREE))"
proof (induction k arbitrary: i xs)
  case (Suc k)
  then have i: "i < length xs" by simp
  have "take (Suc i) (xs[i := FREE]) = take i xs @ [FREE]"
    using i by (simp add: take_Suc_conv_app_nth)
  then show ?case using Suc.IH [of "Suc i" "xs[i := FREE]"] Suc.prems i by simp
qed simp

lemma fill_free_all: "length xs = k \<Longrightarrow> fill_free (Some xs) 0 k = Inr (Some (replicate k FREE))"
  using fill_free_eq [of 0 k xs] by simp

lemma length_malloc_array:
  assumes "unat n * m < 2 ^ 64" and "0 < m"
  shows "malloc_array (Some g) (n * of_nat m) m = Some (map g [0..<unat n])"
proof -
  have "unat (n * of_nat m) = unat n * m"
    using unat_of_nat_mult [of m n] assms(1) by (simp add: mult.commute)
  then show ?thesis using assms(2) by (simp add: malloc_array_def)
qed

lemma taken_of_replicate_FREE [simp]: "taken_of (Some (replicate n FREE)) = {}"
  by (auto simp: taken_of_iff)

text \<open>
  When initialisation succeeds: parameters that fit the integer types and leave room for the
  root directory, and every \<open>malloc\<close> succeeding, whatever the memory it returns holds.
\<close>

definition mallocs_ok :: "mallocs \<Rightarrow> bool" where
  "mallocs_ok m \<longleftrightarrow> m_inode_table m \<noteq> None \<and> m_freeinode_ts m \<noteq> None \<and> m_fs_data m \<noteq> None \<and>
     m_free_blocks m \<noteq> None \<and> m_open_file_table m \<noteq> None \<and> m_free_open_file_entries m \<noteq> None"

definition init_ok :: "tfs_params \<Rightarrow> mallocs \<Rightarrow> bool" where
  "init_ok p m \<longleftrightarrow> params_ok p \<and> 0 < unat (max_inode_count p) \<and> 0 < unat (max_block_count p) \<and>
     mallocs_ok m"

text \<open>The tables \<open>state_init\<close> leaves: everything free, contents as \<open>malloc\<close> returned them.\<close>

definition blank :: "tfs_params \<Rightarrow> mallocs \<Rightarrow> fs_state \<Rightarrow> fs_state" where
  "blank p m s = s\<lparr>fs_params := p,
     inode_table := Some (map (the (m_inode_table m)) [0..<unat (max_inode_count p)]),
     freeinode_ts := Some (replicate (unat (max_inode_count p)) FREE),
     fs_data := Some (map (the (m_fs_data m)) [0..<unat (max_block_count p) * unat (block_size p)]),
     free_blocks := Some (replicate (unat (max_block_count p)) FREE),
     open_file_table := Some (map (the (m_open_file_table m)) [0..<unat (max_open_files_count p)]),
     free_open_file_entries := Some (replicate (unat (max_open_files_count p)) FREE)\<rparr>"

lemma state_init_eq:
  assumes "inode_table s = None" and "params_ok p" and "mallocs_ok m"
  shows "state_init p m s = Inr (0, blank p m s)"
proof -
  have small: "unat (max_inode_count p) < 2 ^ 31" "unat (max_block_count p) < 2 ^ 31"
    "unat (max_open_files_count p) < 2 ^ 31"
    "unat (max_block_count p) * unat (block_size p) < 2 ^ 64"
    using assms(2) by (simp_all add: params_ok_def)
  obtain a b c d e f where m: "m_inode_table m = Some a" "m_freeinode_ts m = Some b"
    "m_fs_data m = Some c" "m_free_blocks m = Some d" "m_open_file_table m = Some e"
    "m_free_open_file_entries m = Some f"
    using assms(3) by (auto simp: mallocs_ok_def)
  have data: "unat (max_block_count p * block_size p) = unat (max_block_count p) * unat (block_size p)"
    using unat_of_nat_mult [of "unat (max_block_count p)" "block_size p"] small(4) by simp
  have mult: "k * 24 < 2 ^ 64" "k * 4 < 2 ^ 64" "k * 16 < 2 ^ 64" if "k < 2 ^ 31" for k :: nat
    using that by simp_all
  note arrays = length_malloc_array [OF mult(1) [OF small(1)]] length_malloc_array [OF mult(2) [OF small(1)]]
    length_malloc_array [OF mult(2) [OF small(2)]] length_malloc_array [OF mult(3) [OF small(3)]]
    length_malloc_array [OF mult(2) [OF small(3)]]
  note arrays' = arrays [simplified]
  have data': "malloc_array (Some c) (max_block_count p * block_size p) 1 =
      Some (map c [0..<unat (max_block_count p) * unat (block_size p)])"
    by (simp add: malloc_array_def data)
  show ?thesis
    unfolding state_init_def sizeof_inode_def sizeof_alloc_state_def sizeof_open_file_def m Let_def
    using assms(1) data' m by (simp add: arrays' fill_free_all blank_def)
qed

subsection \<open>The root directory\<close>

lemma entry_store_inumber:
  assumes "j * 44 + 44 \<le> length B" and "j' * 44 + 44 \<le> length B"
  shows "entry (overwrite (j * 44 + 40) (int_bytes (- 1)) B) j' =
           (if j' = j then (fst (entry B j), - 1) else entry B j')"
proof -
  have apart: "j' * 44 + 44 \<le> j * 44 + 40 \<or> j * 44 + 40 + 4 \<le> j' * 44" if "j' \<noteq> j" using that by linarith
  show ?thesis
    using assms apart bytes_at_overwrite_same [of "j * 44 + 40" "int_bytes (- 1)" B]
    by (auto simp: entry_def bytes_at_overwrite_disjoint)
qed

lemma init_dir_entries_eq:
  assumes "shaped s" and "b < n_blocks s" and "i + k = max_dir_entries s"
  shows "\<exists>d. init_dir_entries (b * bsize s) i k s = Inr (s\<lparr>fs_data := Some d\<rparr>) \<and>
           length d = length (arr (fs_data s)) \<and>
           (\<forall>j < max_dir_entries s. entry (block (s\<lparr>fs_data := Some d\<rparr>) b) j =
              (fst (entry (block s b) j), if i \<le> j then - 1 else snd (entry (block s b) j)))"
  using assms
proof (induction k arbitrary: i s)
  case 0
  then have "s\<lparr>fs_data := Some (arr (fs_data s))\<rparr> = s"
    using has_len_arr [OF shaped_lens(3) [OF 0(1)]] by simp
  then show ?case using 0 by (intro exI [of _ "arr (fs_data s)"]) simp
next
  case (Suc k)
  let ?a = "b * bsize s + i * 44 + 40"
  let ?t = "s\<lparr>fs_data := Some (overwrite ?a (int_bytes (- 1)) (arr (fs_data s)))\<rparr>"
  have i: "i < max_dir_entries s" using Suc.prems(3) by simp
  note at = entry_at(4,5) [OF Suc.prems(1,2) i]
  have store: "store_inumber (d_inumber_at (b * bsize s) i) (- 1) s = Inr ?t"
    using store_bytes_arr [OF Suc.prems(1), of ?a "int_bytes (- 1)"] at
    by (simp add: store_inumber_eq layout add.assoc)
  have sh: "shaped ?t" using Suc.prems(1) at by simp
  have blk: "block ?t b = overwrite (i * 44 + 40) (int_bytes (- 1)) (block s b)"
    using block_overwrite_same [OF Suc.prems(1,2), of "i * 44 + 40" "int_bytes (- 1)"] at
    by (simp add: add.assoc)
  have ent: "entry (block ?t b) j = (if j = i then (fst (entry (block s b) i), - 1) else entry (block s b) j)"
    if "j < max_dir_entries s" for j
    unfolding blk using at entry_at(5) [OF Suc.prems(1,2) that] length_block [OF Suc.prems(1,2)]
    by (intro entry_store_inumber) simp_all
  have par: "max_dir_entries ?t = max_dir_entries s" by (simp add: max_dir_entries_def)
  have "\<exists>d. init_dir_entries (b * bsize s) (Suc i) k ?t = Inr (s\<lparr>fs_data := Some d\<rparr>) \<and>
      length d = length (arr (fs_data s)) \<and>
      (\<forall>j < max_dir_entries s. entry (block (s\<lparr>fs_data := Some d\<rparr>) b) j =
       (fst (entry (block ?t b) j), if Suc i \<le> j then - 1 else snd (entry (block ?t b) j)))"
    using Suc.IH [OF sh, of "Suc i"] Suc.prems par at by simp
  then obtain d where d: "init_dir_entries (b * bsize s) (Suc i) k ?t = Inr (s\<lparr>fs_data := Some d\<rparr>)"
    "length d = length (arr (fs_data s))"
    "\<And>j. j < max_dir_entries s \<Longrightarrow> entry (block (s\<lparr>fs_data := Some d\<rparr>) b) j =
       (fst (entry (block ?t b) j), if Suc i \<le> j then - 1 else snd (entry (block ?t b) j))"
    by blast
  have "\<forall>j < max_dir_entries s. entry (block (s\<lparr>fs_data := Some d\<rparr>) b) j =
      (fst (entry (block s b) j), if i \<le> j then - 1 else snd (entry (block s b) j))"
    using d(3) ent by (auto simp: le_Suc_eq Suc_le_eq)
  then show ?case using d(1,2) store by (intro exI [of _ d]) simp
qed

definition empty_afs :: afs where
  "empty_afs = \<lparr>a_dir = Map.empty, a_file = Map.empty, a_open = Map.empty\<rparr>"

text \<open>The state before the root directory's entries are written.\<close>

definition rooted :: "tfs_params \<Rightarrow> mallocs \<Rightarrow> fs_state \<Rightarrow> fs_state" where
  "rooted p m s = (let b = blank p m s in b\<lparr>
     freeinode_ts := Some ((arr (freeinode_ts b))[0 := TAKEN]),
     inode_table := Some ((arr (inode_table b))
       [0 := \<lparr>i_node_type = T_DIRECTORY, i_size = block_size p, i_data_block = 0\<rparr>]),
     free_blocks := Some ((arr (free_blocks b))[0 := TAKEN])\<rparr>)"

lemma shaped_blank: "params_ok p \<Longrightarrow> shaped (blank p m s)"
  by (simp add: shaped_def blank_def)

lemma shaped_rooted: "params_ok p \<Longrightarrow> shaped (rooted p m s)"
  using shaped_blank [of p m s] by (simp add: rooted_def Let_def)

lemma rooted_params [simp]: "fs_params (rooted p m s) = p"
  by (simp add: rooted_def Let_def blank_def)

lemma first_free_replicate: "0 < n \<Longrightarrow> first_free (replicate n FREE) = Some 0"
  by (cases n) simp_all

lemma create_root_eq:
  assumes "params_ok p" and "0 < unat (max_inode_count p)" and "0 < unat (max_block_count p)"
  shows "inode_create T_DIRECTORY (blank p m s) =
     res_bind (init_dir_entries 0 0 (max_dir_entries (rooted p m s)) (rooted p m s)) (\<lambda>s. Inr (0, s))"
proof -
  let ?b = "blank p m s"
  let ?b1 = "?b\<lparr>freeinode_ts := Some ((arr (freeinode_ts ?b))[0 := TAKEN])\<rparr>"
  define b2 where "b2 = ?b1\<lparr>inode_table :=
      Some ((arr (inode_table ?b))[0 := inode ?b 0\<lparr>i_node_type := T_DIRECTORY\<rparr>])\<rparr>"
  define b3 where "b3 = b2\<lparr>free_blocks := Some ((arr (free_blocks ?b))[0 := TAKEN])\<rparr>"
  note sh = shaped_blank [OF assms(1), of m s]
  have sh1: "shaped ?b1" using sh by simp
  have sh2: "shaped b2" using sh by (simp add: b2_def)
  have sh3: "shaped b3" using sh2 shaped_lengths(4) [OF sh] by (simp add: b3_def) (simp add: b2_def)
  have par: "n_inodes ?b = unat (max_inode_count p)" "n_blocks ?b = unat (max_block_count p)"
    by (simp_all add: blank_def)
  have par3: "fs_params b3 = p" "fs_params b2 = p" "fs_params ?b1 = p"
    by (simp_all add: b3_def b2_def blank_def)
  have alloc: "inode_alloc ?b = Inr (0, ?b1)"
    using inode_alloc_eq [OF sh] assms(2) by (simp add: blank_def first_free_replicate)
  have "free_blocks b2 = free_blocks ?b" by (simp add: b2_def)
  then have blk: "data_block_alloc b2 = Inr (0, b3)"
    using data_block_alloc_eq [OF sh2] assms(3) by (simp add: b3_def blank_def first_free_replicate)
  have tbl: "inode_table b3 = Some ((arr (inode_table ?b))[0 := inode ?b 0\<lparr>i_node_type := T_DIRECTORY\<rparr>])"
    by (simp add: b3_def b2_def)
  have get3: "inode b3 0 = inode ?b 0\<lparr>i_node_type := T_DIRECTORY\<rparr>"
    using sh assms(2) par by (simp add: tbl)
  have rooted: "b3\<lparr>inode_table := Some ((arr (inode_table b3))[0 := inode b3 0
      \<lparr>i_size := block_size p, i_data_block := 0\<rparr>])\<rparr> = rooted p m s"
    unfolding get3 unfolding tbl by (simp add: rooted_def Let_def b3_def b2_def)
  have st: "store_inode (Some 0) v t = Inr (t\<lparr>inode_table := Some ((arr (inode_table t))[0 := v])\<rparr>)"
    "load_inode t (Some 0) = Inr (inode t 0)" if "shaped t" "fs_params t = p" for v t
    using store_inode_eq [OF that(1), of 0 v] load_inode_eq [OF that(1), of 0] that(2) assms(2) by simp_all
  have "data_block_get (rooted p m s) 0 = Inr (Some 0)"
    using data_block_get_eq [OF shaped_rooted [OF assms(1)], of 0 m s] assms(3) by simp
  moreover have "store_inode (Some 0) (inode ?b1 0\<lparr>i_node_type := T_DIRECTORY\<rparr>) ?b1 = Inr b2"
    using st(1) [OF sh1 par3(3)] by (simp add: b2_def)
  ultimately show ?thesis
    using st(2) [OF sh1 par3(3)] st [OF sh3 par3(1)] blk rooted
    by (simp add: inode_create_def alloc par3 deref_block_def)
qed

lemma tfs_init_eq:
  assumes "init_ok p m" and "inode_table s = None"
  shows "\<exists>d. tfs_init (Some p) m s = Inr (0, (rooted p m s)\<lparr>fs_data := Some d\<rparr>) \<and>
           length d = unat (max_block_count p) * unat (block_size p) \<and>
           (\<forall>j < unat (block_size p) div 44.
              entry (block ((rooted p m s)\<lparr>fs_data := Some d\<rparr>) 0) j =
                (fst (entry (block (rooted p m s) 0) j), - 1))"
proof -
  note ok = assms(1) [unfolded init_ok_def]
  have sh: "shaped (rooted p m s)" using ok by (simp add: shaped_rooted)
  have blocks: "0 < n_blocks (rooted p m s)" using ok by simp
  have max: "max_dir_entries (rooted p m s) = unat (block_size p) div 44"
    by (simp add: max_dir_entries_def layout)
  from init_dir_entries_eq [OF sh blocks, of 0 "max_dir_entries (rooted p m s)"] obtain d where d:
    "init_dir_entries 0 0 (max_dir_entries (rooted p m s)) (rooted p m s) =
       Inr ((rooted p m s)\<lparr>fs_data := Some d\<rparr>)"
    "length d = length (arr (fs_data (rooted p m s)))"
    "\<forall>j < max_dir_entries (rooted p m s). entry (block ((rooted p m s)\<lparr>fs_data := Some d\<rparr>) 0) j =
       (fst (entry (block (rooted p m s) 0) j), - 1)"
    by auto
  have "tfs_init (Some p) m s = Inr (0, (rooted p m s)\<lparr>fs_data := Some d\<rparr>)"
    using ok state_init_eq [OF assms(2)] create_root_eq [of p m s] d(1)
    by (simp add: tfs_init_def ROOT_DIR_INUM_def)
  then show ?thesis using d(2,3) shaped_lengths(3) [OF sh] max by auto
qed

lemma fs_inv_init:
  assumes "init_ok p m" and "inode_table s = None" and "\<not> g_library_mutex s"
  shows "\<exists>t. tfs_init (Some p) m s = Inr (0, t) \<and> fs_inv t \<and> fs_params t = p \<and> absf t = empty_afs"
proof -
  note ok = assms(1) [unfolded init_ok_def]
  from tfs_init_eq [OF assms(1,2)] obtain d where d:
    "tfs_init (Some p) m s = Inr (0, (rooted p m s)\<lparr>fs_data := Some d\<rparr>)"
    "length d = unat (max_block_count p) * unat (block_size p)"
    "\<And>j. j < unat (block_size p) div 44 \<Longrightarrow>
       entry (block ((rooted p m s)\<lparr>fs_data := Some d\<rparr>) 0) j = (fst (entry (block (rooted p m s) 0) j), - 1)"
    by blast
  let ?t = "(rooted p m s)\<lparr>fs_data := Some d\<rparr>"
  have sh: "shaped ?t" using shaped_rooted [of p m s] ok d(2) by simp
  have ino: "inode ?t 0 = \<lparr>i_node_type = T_DIRECTORY, i_size = block_size p, i_data_block = 0\<rparr>"
    using ok by (simp add: rooted_def Let_def blank_def)
  have rep: "taken_of (Some ((replicate k FREE)[0 := TAKEN])) = {0}" if "0 < k" for k
    using that by (auto simp: taken_of_iff nth_list_update split: if_splits)
  have sets: "live_inodes ?t = {0}" "used_blocks ?t = {0}" "open_handles ?t = {}"
    using ok by (simp_all add: rooted_def Let_def blank_def rep)
  have rb: "root_block ?t = 0" using ino by (simp add: root_block_def)
  have ents: "snd e = - 1" if "e \<in> set (dirents ?t)" for e
    using that d(3) rb by (auto simp: dirents_def entries_def max_dir_entries_def layout)
  then have as: "assoc (dirents ?t) = []" by (auto simp: assoc_def used_entries_def filter_empty_conv)
  then have dm: "dmap ?t = Map.empty" by (simp add: dmap_def)
  have wf: "dir_wf ?t"
    using sh ino rb ok ents as touched_ok_free [of "dirents ?t"] by (simp add: dir_wf_def entries_ok_def)
  have ne: "nonempty ?t = {0}"
    unfolding nonempty_def sets using ino ok by (auto simp: params_ok_def)
  have "fs_ok ?t"
    by (rule fs_okI [OF wf]) (use ino sets ne dm in \<open>simp_all add: inode_ok_def blk_def\<close>)
  moreover have "\<not> g_library_mutex ?t" using assms(3) by (simp add: rooted_def Let_def blank_def)
  moreover have "absf ?t = empty_afs"
    using dm sets by (simp add: absf_def empty_afs_def fun_eq_iff)
  ultimately show ?thesis using d(1) by (simp add: fs_inv_def)
qed

text \<open>\<open>tfs_init\<close> while the tables exist fails, but only after it has replaced the parameters.\<close>

lemma tfs_init_again:
  "inode_table s \<noteq> None \<Longrightarrow> tfs_init (Some p) m s = Inr (- 1, s\<lparr>fs_params := p\<rparr>)"
  by (simp add: tfs_init_def state_init_def Let_def)

lemma tfs_init_default: "tfs_init None m s = tfs_init (Some tfs_default_params) m s"
  by (simp add: tfs_init_def)

lemma destroy_init:
  assumes "init_ok p m" and "fs_inv s"
  shows "\<exists>t. tfs_init (Some p) m (snd (tfs_destroy s)) = Inr (0, t) \<and> fs_inv t \<and>
           fs_params t = p \<and> absf t = empty_afs"
  using assms by (intro fs_inv_init) (simp_all add: tfs_destroy_def state_destroy_def fs_inv_def)

end
