(* ===== verification/FsClient.thy ===== *)
theory FsClient
  imports TfsInit
begin

text \<open>
  What a client of the file system may rely on. The contract is the locale \<open>file_system\<close>: each
  allowed call returns and does to the abstract view what the specification says. Facts about
  sequences of calls are proved once from it; \<open>tfs\<close> is its interpretation on the code's model.
\<close>

subsection \<open>Sequences of calls\<close>

fun spec_run :: "tfs_params \<Rightarrow> call list \<Rightarrow> afs \<Rightarrow> reply list \<times> afs" where
  "spec_run p [] A = ([], A)"
| "spec_run p (c # cs) A =
     (case spec_call p c A of (r, A) \<Rightarrow> case spec_run p cs A of (rs, A) \<Rightarrow> (r # rs, A))"

fun allowed :: "tfs_params \<Rightarrow> call list \<Rightarrow> afs \<Rightarrow> bool" where
  "allowed p [] A \<longleftrightarrow> True"
| "allowed p (c # cs) A \<longleftrightarrow> call_ok p c A \<and> allowed p cs (snd (spec_call p c A))"

subsection \<open>What an open leaves\<close>

lemma least_free_SomeD: "least_free u n = Some i \<Longrightarrow> i < n \<and> \<not> u i"
  by (auto simp: least_free_def find_Some_iff)

lemma sp_handleD:
  "sp_handle p i off A = (r, A') \<Longrightarrow> r \<noteq> - 1 \<Longrightarrow>
     \<exists>h. r = int h \<and> a_open A h = None \<and> A' = A\<lparr>a_open := (a_open A)(h \<mapsto> (i, off))\<rparr>"
  by (auto simp: sp_handle_def simp del: not_None_eq dest!: least_free_SomeD split: option.splits)

lemma sp_openD:
  assumes "sp_open p path mode A = (r, A')" and "r \<noteq> - 1"
  obtains nm i h where "name_of path = Some nm" and "r = int h" and "a_open A h = None"
    and "a_dir A' nm = Some i"
    and "a_open A' h = Some (i, if has_flag mode TFS_O_APPEND then length (sp_content A' i) else 0)"
    and "a_dir A nm = None \<or> has_flag mode TFS_O_TRUNC \<Longrightarrow> sp_content A' i = []"
    and "a_dir A nm \<noteq> None \<Longrightarrow> \<not> has_flag mode TFS_O_TRUNC \<Longrightarrow> a_dir A' = a_dir A \<and> a_file A' = a_file A"
proof -
  obtain nm where nm: "name_of path = Some nm"
    using assms by (auto simp: sp_open_def split: option.splits)
  show thesis
  proof (cases "a_dir A nm")
    case None
    then obtain i where "sp_handle p i 0 (A\<lparr>a_dir := (a_dir A)(nm \<mapsto> i),
        a_file := (a_file A)(i \<mapsto> [])\<rparr>) = (r, A')"
      using assms nm by (auto simp: sp_open_def split: option.splits if_splits)
    from sp_handleD [OF this assms(2)] obtain h where h: "r = int h" "a_open A h = None"
      "A' = A\<lparr>a_dir := (a_dir A)(nm \<mapsto> i), a_file := (a_file A)(i \<mapsto> []),
             a_open := (a_open A)(h \<mapsto> (i, 0))\<rparr>" by auto
    show thesis
      by (rule that [OF nm h(1), of i]) (use h None in \<open>auto simp: sp_content_def\<close>)
  next
    case (Some i)
    let ?A = "if has_flag mode TFS_O_TRUNC then A\<lparr>a_file := (a_file A)(i \<mapsto> [])\<rparr> else A"
    from assms(1) nm Some have "sp_handle p i
        (if has_flag mode TFS_O_APPEND then length (sp_content ?A i) else 0) ?A = (r, A')"
      by (simp add: sp_open_def Let_def)
    from sp_handleD [OF this assms(2)] obtain h where h: "r = int h" "a_open ?A h = None"
      "A' = ?A\<lparr>a_open := (a_open ?A)(h \<mapsto> (i,
         if has_flag mode TFS_O_APPEND then length (sp_content ?A i) else 0))\<rparr>" by blast
    show thesis
      by (rule that [OF nm h(1), of i])
        (use h Some in \<open>auto simp: sp_content_def split: if_splits\<close>)
  qed
qed

lemma sp_writeD:
  assumes "sp_write p z buf len A = (w, A')" and "w \<noteq> - 1" and "sp_lookup A z = Some (i, off)"
    and "n = min (unat len) (unat (block_size p) - off)"
  shows "w = int n" and "0 < n \<Longrightarrow> sp_content A' i = write_at off (take n buf) (sp_content A i)"
  using assms by (auto simp: sp_write_def Let_def sp_content_def split: if_splits)

lemma sp_unlinkD:
  "sp_unlink path A = (r, A') \<Longrightarrow> name_of path = Some nm \<Longrightarrow> a_dir A' nm = None"
  by (auto simp: sp_unlink_def split: option.splits)

subsection \<open>The interface of a file system\<close>

locale file_system =
  fixes ok :: "'s \<Rightarrow> bool"
    and view :: "'s \<Rightarrow> afs"
    and params :: "'s \<Rightarrow> tfs_params"
    and step :: "'s \<Rightarrow> call \<Rightarrow> (reply \<times> 's) res"
  assumes step_law: "ok s \<Longrightarrow> call_ok (params s) c (view s) \<Longrightarrow>
      \<exists>r s'. step s c = Inr (r, s') \<and> ok s' \<and> params s' = params s \<and>
             spec_call (params s) c (view s) = (r, view s')"
begin

lemma stepD:
  assumes "ok s" and "call_ok (params s) c (view s)" and "step s c = Inr (r, s')"
  shows "ok s'" and "params s' = params s" and "spec_call (params s) c (view s) = (r, view s')"
  using step_law [OF assms(1,2)] assms(3) by auto

text \<open>Every allowed sequence of calls returns, with the replies of the specification.\<close>

lemma run_refines:
  "ok s \<Longrightarrow> allowed (params s) cs (view s) \<Longrightarrow>
     \<exists>rs s'. run_calls step cs s = Inr (rs, s') \<and> ok s' \<and> params s' = params s \<and>
             spec_run (params s) cs (view s) = (rs, view s')"
proof (induction cs arbitrary: s)
  case (Cons c cs)
  then obtain r s' where step: "step s c = Inr (r, s')" "ok s'" "params s' = params s"
    "spec_call (params s) c (view s) = (r, view s')"
    using step_law [of s c] by auto
  with Cons.prems have "allowed (params s') cs (view s')" by simp
  from Cons.IH [OF step(2) this] obtain rs s'' where
    "run_calls step cs s' = Inr (rs, s'')" "ok s''" "params s'' = params s'"
    "spec_run (params s') cs (view s') = (rs, view s'')" by blast
  then show ?case using step by simp
qed simp

text \<open>
  What is written to a fresh or truncated file is what a later open of the same path reads.
\<close>

lemma write_read_back:
  assumes "ok s" and "call_ok (params s) (Open path mode) (view s)"
    and "step s (Open path mode) = Inr (Ret h, s1)" and "h \<noteq> - 1"
    and "has_flag mode TFS_O_TRUNC \<or> Option.bind (name_of path) (a_dir (view s)) = None"
    and "unat n = length data" and "data \<noteq> []" and "length data \<le> unat (block_size (params s))"
    and "n < 2 ^ 63"
    and "step s1 (Write h data n) = Inr (Ret w, s2)" and "w \<noteq> - 1"
    and "step s2 (Close h) = Inr (Ret c, s3)"
    and "step s3 (Open path 0) = Inr (Ret h', s4)" and "h' \<noteq> - 1"
    and "step s4 (Read h' buf m) = Inr (Bytes k buf', s5)" and "unat n \<le> unat m" and "unat m \<le> length buf"
  shows "w = int (length data) \<and> c = 0 \<and> k = int (length data) \<and>
         buf' = data @ drop (length data) buf"
proof -
  let ?p = "params s"
  have path: "path_ok path" using assms(2) by simp
  note st1 = stepD [OF assms(1-3)]
  have ok1: "sp_open ?p path mode (view s) = (h, view s1)" using st1(3) by (auto split: prod.splits)
  obtain nm i hd where o1: "name_of path = Some nm" "h = int hd" "a_dir (view s1) nm = Some i"
    "a_open (view s1) hd = Some (i, if has_flag mode TFS_O_APPEND then length (sp_content (view s1) i) else 0)"
    "a_dir (view s) nm = None \<or> has_flag mode TFS_O_TRUNC \<Longrightarrow> sp_content (view s1) i = []"
    by (rule sp_openD [OF ok1 assms(4)]) blast
  have empty: "sp_content (view s1) i = []" using o1(1,5) assms(5) by auto
  have look: "sp_lookup (view s1) h = Some (i, 0)" using o1(2,4) empty by (simp add: sp_lookup_def)
  have w_ok: "call_ok (params s1) (Write h data n) (view s1)" using assms(6,9) by simp
  note st2 = stepD [OF st1(1) w_ok assms(10)]
  have "min (unat n) (unat (block_size ?p)) = length data" "length data \<noteq> 0" using assms(6-8) by simp_all
  then have v2: "w = int (length data)"
    "view s2 = (view s1)\<lparr>a_file := (a_file (view s1))(i \<mapsto> data),
                        a_open := (a_open (view s1))(hd \<mapsto> (i, length data))\<rparr>"
    using st2(3) assms(11) look o1(2) empty assms(6) st1(2)
    by (auto simp: sp_write_def Let_def write_at_def split: if_splits)
  note st3 = stepD [OF st2(1) _ assms(12), simplified]
  have v3: "c = 0" "view s3 = (view s2)\<lparr>a_open := (a_open (view s2))(hd := None)\<rparr>"
    using st3(3) o1(2) v2(2) by (auto simp: sp_close_def sp_lookup_def)
  have "\<not> has_flag 0 f" for f by (simp add: has_flag_def)
  then have o_ok: "call_ok (params s3) (Open path 0) (view s3)" using path by simp
  note st4 = stepD [OF st3(1) o_ok assms(13)]
  have ok4: "sp_open (params s3) path 0 (view s3) = (h', view s4)" using st4(3) by (auto split: prod.splits)
  have dir3: "a_dir (view s3) nm = Some i" using v3(2) v2(2) o1(3) by simp
  obtain nm' i' hd' where o4: "name_of path = Some nm'" "h' = int hd'" "a_dir (view s4) nm' = Some i'"
    "a_open (view s4) hd' = Some (i', if has_flag 0 TFS_O_APPEND then length (sp_content (view s4) i') else 0)"
    "a_dir (view s3) nm' \<noteq> None \<Longrightarrow> \<not> has_flag 0 TFS_O_TRUNC \<Longrightarrow>
       a_dir (view s4) = a_dir (view s3) \<and> a_file (view s4) = a_file (view s3)"
    by (rule sp_openD [OF ok4 assms(14)]) blast
  have v4: "sp_lookup (view s4) h' = Some (i, 0)" "sp_content (view s4) i = data"
    using o4 o1(1) dir3 v3(2) v2(2) by (auto simp: sp_lookup_def sp_content_def has_flag_def)
  note st5 = stepD [OF st4(1) _ assms(15)]
  have "call_ok (params s4) (Read h' buf m) (view s4)" using assms(17) by simp
  from st5(3) [OF this] have "k = int (length data) \<and> buf' = data @ drop (length data) buf"
    using v4 assms(6,16) by (auto simp: sp_read_def Let_def min_def split: if_splits)
  then show ?thesis using v2(1) v3(1) by simp
qed

text \<open>An unlinked path is gone: it cannot be opened again without creating it.\<close>

lemma unlinked_gone:
  assumes "ok s" and "call_ok (params s) (Unlink path) (view s)"
    and "step s (Unlink path) = Inr (r, s1)" and "\<not> has_flag mode TFS_O_CREAT"
    and "step s1 (Open path mode) = Inr (q, s2)"
  shows "q = Ret (- 1) \<and> view s2 = view s1"
proof -
  note st1 = stepD [OF assms(1-3)]
  have "sp_unlink path (view s) = (case r of Ret q \<Rightarrow> q | Bytes q _ \<Rightarrow> q, view s1)"
    using st1(3) by (auto split: prod.splits)
  then have gone: "a_dir (view s1) nm = None" if "name_of path = Some nm" for nm
    using sp_unlinkD that by blast
  then have none: "open_offsets (params s1) (view s1) path = [] \<and>
      (case name_of path of None \<Rightarrow> True | Some nm \<Rightarrow> a_dir (view s1) nm = None)"
    by (auto simp: open_offsets_def split: option.splits)
  then have "call_ok (params s1) (Open path mode) (view s1)" using assms(2) by simp
  from stepD(3) [OF st1(1) this assms(5)] none assms(4) show ?thesis
    by (auto simp: sp_open_def split: option.splits)
qed

text \<open>A write through a handle opened with \<open>TFS_O_APPEND\<close> extends the file.\<close>

lemma append_write:
  assumes "ok s" and "call_ok (params s) (Open path mode) (view s)"
    and "step s (Open path mode) = Inr (Ret h, s1)" and "h \<noteq> - 1"
    and "has_flag mode TFS_O_APPEND" and "\<not> has_flag mode TFS_O_TRUNC"
    and "name_of path = Some nm" and "a_dir (view s) nm = Some i"
    and "unat n = length data" and "n < 2 ^ 63"
    and "length (sp_content (view s) i) + length data \<le> unat (block_size (params s))"
    and "step s1 (Write h data n) = Inr (Ret w, s2)" and "w \<noteq> - 1"
  shows "w = int (length data)" and "data \<noteq> [] \<Longrightarrow> sp_content (view s2) i = sp_content (view s) i @ data"
proof -
  note st1 = stepD [OF assms(1-3)]
  have "sp_open (params s) path mode (view s) = (h, view s1)" using st1(3) by (auto split: prod.splits)
  then obtain nm' i' hd where o: "name_of path = Some nm'" "h = int hd" "a_dir (view s1) nm' = Some i'"
    "a_open (view s1) hd = Some (i', if has_flag mode TFS_O_APPEND then length (sp_content (view s1) i') else 0)"
    "a_dir (view s) nm' \<noteq> None \<Longrightarrow> \<not> has_flag mode TFS_O_TRUNC \<Longrightarrow>
       a_dir (view s1) = a_dir (view s) \<and> a_file (view s1) = a_file (view s)"
    using assms(4) by (rule sp_openD) blast
  then have hd: "h = int hd" "a_file (view s1) = a_file (view s)"
    "a_open (view s1) hd = Some (i, length (sp_content (view s1) i))"
    using assms(5-8) by auto
  have same: "sp_content (view s1) i = sp_content (view s) i" using hd(2) by (simp add: sp_content_def)
  have look: "sp_lookup (view s1) h = Some (i, length (sp_content (view s) i))"
    using hd same by (simp add: sp_lookup_def)
  have "call_ok (params s1) (Write h data n) (view s1)" using assms(9,10) by simp
  from stepD(3) [OF st1(1) this assms(12)]
  have st2: "sp_write (params s) h data n (view s1) = (w, view s2)"
    using st1(2) by (auto split: prod.splits)
  have "length data = min (unat n) (unat (block_size (params s)) - length (sp_content (view s) i))"
    using assms(9,11) by simp
  note wr = sp_writeD [OF st2 assms(13) look this]
  show "w = int (length data)" by (rule wr(1))
  show "data \<noteq> [] \<Longrightarrow> sp_content (view s2) i = sp_content (view s) i @ data"
    using wr(2) same by (simp add: write_at_def)
qed

text \<open>
  With every handle taken, opening an absent path with \<open>TFS_O_CREAT\<close> reports failure, but the
  file has been created.
\<close>

lemma open_no_handle:
  assumes "ok s" and "call_ok (params s) (Open path mode) (view s)"
    and "step s (Open path mode) = Inr (r, s1)"
    and "name_of path = Some nm" and "a_dir (view s) nm = None" and "has_flag mode TFS_O_CREAT"
    and "length nm < 40" and "\<not> sp_dir_full (params s) (view s)"
    and "length (sp_files (params s) (view s)) + 1 < unat (max_inode_count (params s))"
    and "\<forall>h < unat (max_open_files_count (params s)). a_open (view s) h \<noteq> None"
  shows "r = Ret (- 1)" and "\<exists>i. a_dir (view s1) nm = Some i \<and> a_file (view s1) i = Some []"
proof -
  let ?A = "view s" and ?p = "params s"
  let ?u = "\<lambda>i. i = 0 \<or> a_file ?A i \<noteq> None"
  have "least_free ?u (unat (max_inode_count ?p)) \<noteq> None"
  proof
    assume "least_free ?u (unat (max_inode_count ?p)) = None"
    then have all: "?u i" if "i < unat (max_inode_count ?p)" for i
      using that unfolding least_free_def find_None_iff by auto
    then have "set (filter (\<lambda>i. i \<noteq> 0) [0..<unat (max_inode_count ?p)]) \<subseteq> set (sp_files ?p ?A)"
      by (auto simp: sp_files_def)
    then have "card (set (filter (\<lambda>i. i \<noteq> 0) [0..<unat (max_inode_count ?p)])) \<le> length (sp_files ?p ?A)"
      by (meson List.finite_set card_length card_mono order_trans)
    moreover have "set (filter (\<lambda>i. i \<noteq> 0) [0..<unat (max_inode_count ?p)]) = {0..<unat (max_inode_count ?p)} - {0}"
      by auto
    ultimately show False using assms(9) by simp
  qed
  then obtain i where i: "least_free ?u (unat (max_inode_count ?p)) = Some i" by blast
  have "least_free (\<lambda>h. a_open ?A h \<noteq> None) (unat (max_open_files_count ?p)) = None"
    using assms(10) by (auto simp: least_free_def find_None_iff)
  then have "sp_open ?p path mode ?A =
      (- 1, ?A\<lparr>a_dir := (a_dir ?A)(nm \<mapsto> i), a_file := (a_file ?A)(i \<mapsto> [])\<rparr>)"
    using assms(4-8) i by (simp add: sp_open_def sp_handle_def MAX_FILE_NAME_def)
  then have "r = Ret (- 1)"
    "view s1 = ?A\<lparr>a_dir := (a_dir ?A)(nm \<mapsto> i), a_file := (a_file ?A)(i \<mapsto> [])\<rparr>"
    using stepD(3) [OF assms(1-3)] by simp_all
  then show "r = Ret (- 1)" and "\<exists>i. a_dir (view s1) nm = Some i \<and> a_file (view s1) i = Some []"
    by simp_all
qed

end

interpretation tfs: file_system fs_inv absf fs_params "\<lambda>s c. exec_call c s"
  using refine_call by unfold_locales (auto simp: refines_def)

end
