(* ===== verification/TfsProps.thy ===== *)
theory TfsProps
  imports FsClient
begin

text \<open>
  The properties of the file system, with a small started instance (\<open>demo\<close>) on which each
  property that has hypotheses is applied.
\<close>

subsection \<open>A small instance\<close>

definition small_params :: tfs_params where
  "small_params = \<lparr>max_inode_count = 4, max_block_count = 4, max_open_files_count = 2, block_size = 128\<rparr>"

text \<open>Every \<open>malloc\<close> succeeds and returns memory that held something else.\<close>

definition used_mallocs :: mallocs where
  "used_mallocs = \<lparr>m_inode_table = Some (\<lambda>_. fresh_file), m_freeinode_ts = Some (\<lambda>_. TAKEN),
     m_fs_data = Some (\<lambda>_. 102), m_free_blocks = Some (\<lambda>_. TAKEN),
     m_open_file_table = Some (\<lambda>_. \<lparr>of_inumber = 0, of_offset = 0\<rparr>),
     m_free_open_file_entries = Some (\<lambda>_. TAKEN)\<rparr>"

definition cold :: fs_state where
  "cold = \<lparr>fs_params = small_params, inode_table = None, freeinode_ts = None, fs_data = None,
           free_blocks = None, open_file_table = None, free_open_file_entries = None,
           g_library_mutex = False\<rparr>"

definition demo :: fs_state where
  "demo = (case tfs_init (Some small_params) used_mallocs cold of Inr (r, s) \<Rightarrow> s | Inl _ \<Rightarrow> cold)"

abbreviation run :: "call list \<Rightarrow> fs_state \<Rightarrow> (reply list \<times> fs_state) res" where
  "run \<equiv> run_calls (\<lambda>s c. exec_call c s)"

definition demo_after :: "call list \<Rightarrow> fs_state" where
  "demo_after cs = (case run cs demo of Inr (rs, s) \<Rightarrow> s | Inl _ \<Rightarrow> demo)"

definition path_f :: c_ptr where "path_f = Some [47, 102, 0]"
definition path_g :: c_ptr where "path_g = Some [47, 103, 0]"

lemma init_ok_small: "init_ok small_params used_mallocs"
  by (simp add: init_ok_def params_ok_def mallocs_ok_def small_params_def used_mallocs_def)

lemma demo_facts:
  "fs_inv demo" "fs_params demo = small_params" "absf demo = empty_afs"
  "tfs_init (Some small_params) used_mallocs cold = Inr (0, demo)"
  using fs_inv_init [OF init_ok_small, of cold] by (auto simp: demo_def cold_def)

lemma demo_after_facts:
  assumes "allowed small_params cs empty_afs"
  shows "fs_inv (demo_after cs)" and "fs_params (demo_after cs) = small_params"
    and "absf (demo_after cs) = snd (spec_run small_params cs empty_afs)"
    and "run cs demo = Inr (fst (spec_run small_params cs empty_afs), demo_after cs)"
  using tfs.run_refines [of demo cs] assms by (auto simp: demo_facts demo_after_def)

lemma exec_call_of:
  "exec_call (Open path mode) s = Inr (Ret r, t) \<longleftrightarrow> tfs_open path mode s = Inr (r, t)"
  "exec_call (Close z) s = Inr (Ret r, t) \<longleftrightarrow> tfs_close z s = Inr (r, t)"
  "exec_call (Write z buf len) s = Inr (Ret r, t) \<longleftrightarrow> tfs_write z buf len s = Inr (r, t)"
  "exec_call (Read z buf len) s = Inr (Bytes r b, t) \<longleftrightarrow> tfs_read z buf len s = Inr (r, b, t)"
  "exec_call (Unlink path) s = Inr (Ret r, t) \<longleftrightarrow> tfs_unlink path s = Inr (r, t)"
  by (auto simp: res_iff)

subsection \<open>Refinement\<close>

text \<open>C1: From every state that satisfies the invariant, every allowed call of the public
  interface returns (no failed assertion, no access outside an array), keeps the invariant and
  the parameters, and its reply and effect on names, contents and handles are exactly those of
  the abstract file system, error replies included.\<close>

theorem tfs_refines_spec:
  assumes "fs_inv s" and "call_ok (fs_params s) c (absf s)"
  shows "\<exists>r t. exec_call c s = Inr (r, t) \<and> fs_inv t \<and> fs_params t = fs_params s \<and>
           spec_call (fs_params s) c (absf s) = (r, absf t)"
  using refine_call [OF assms] by (auto simp: refines_def)

theorem tfs_refines_spec_witness:
  "\<exists>t. exec_call (Open path_f TFS_O_CREAT) demo = Inr (Ret 0, t) \<and> fs_inv t \<and>
       absf t = \<lparr>a_dir = [[102] \<mapsto> 1], a_file = [1 \<mapsto> []], a_open = [0 \<mapsto> (1, 0)]\<rparr>"
proof -
  have ok: "call_ok (fs_params demo) (Open path_f TFS_O_CREAT) (absf demo)"
    unfolding demo_facts by code_simp
  let ?A = "\<lparr>a_dir = [[102] \<mapsto> 1], a_file = [1 \<mapsto> []], a_open = [0 \<mapsto> (1, 0)]\<rparr>"
  have spec: "spec_call small_params (Open path_f TFS_O_CREAT) empty_afs = (Ret 0, ?A)"
    by (simp add: sp_open_def path_f_def path_name_def SLASH_def has_flag_def TFS_O_CREAT_def
        empty_afs_def least_free_def small_params_def upt_rec sp_dir_full_def sp_files_def
        sizeof_dir_entry_def MAX_FILE_NAME_def sp_handle_def)
  from tfs_refines_spec [OF demo_facts(1) ok] obtain r t where
    "exec_call (Open path_f TFS_O_CREAT) demo = Inr (r, t)" "fs_inv t"
    "spec_call (fs_params demo) (Open path_f TFS_O_CREAT) (absf demo) = (r, absf t)" by blast
  moreover from this spec have "r = Ret 0" "absf t = ?A" by (simp_all add: demo_facts)
  ultimately show ?thesis by simp
qed

text \<open>C2: After a successful start, every allowed sequence of calls runs to its end, with the
  replies of the abstract file system started empty.\<close>

theorem tfs_session:
  assumes "init_ok p m" and "inode_table s = None" and "\<not> g_library_mutex s"
    and "allowed p cs empty_afs"
  shows "\<exists>s0 rs t. tfs_init (Some p) m s = Inr (0, s0) \<and> run cs s0 = Inr (rs, t) \<and> fs_inv t \<and>
           spec_run p cs empty_afs = (rs, absf t)"
proof -
  from fs_inv_init [OF assms(1-3)] obtain s0 where
    s0: "tfs_init (Some p) m s = Inr (0, s0)" "fs_inv s0" "fs_params s0 = p" "absf s0 = empty_afs"
    by blast
  then show ?thesis using tfs.run_refines [of s0 cs] assms(4) by auto
qed

text \<open>A session that creates two files, writes one in two steps and reads it through another handle.\<close>

definition session :: "call list" where
  "session = [Open path_f TFS_O_CREAT, Write 0 [1, 2, 3] 3, Open path_f 0, Write 0 [4, 5] 2,
     Read 1 (replicate 8 9) 8, Close 0, Open path_g TFS_O_CREAT, Close 0, Unlink path_g,
     Unlink path_g, Open path_g TFS_O_CREAT]"

theorem tfs_session_witness:
  "\<exists>s0 t. tfs_init (Some small_params) used_mallocs cold = Inr (0, s0) \<and>
     run session s0 = Inr ([Ret 0, Ret 3, Ret 1, Ret 2, Bytes 5 [1, 2, 3, 4, 5, 9, 9, 9], Ret 0,
                            Ret 0, Ret 0, Ret 0, Ret (- 1), Ret 0], t) \<and> fs_inv t"
proof -
  have ok: "allowed small_params session empty_afs" by code_simp
  have replies: "fst (spec_run small_params session empty_afs) =
      [Ret 0, Ret 3, Ret 1, Ret 2, Bytes 5 [1, 2, 3, 4, 5, 9, 9, 9], Ret 0,
       Ret 0, Ret 0, Ret 0, Ret (- 1), Ret 0]" by code_simp
  have "inode_table cold = None" "\<not> g_library_mutex cold" by (simp_all add: cold_def)
  from tfs_session [OF init_ok_small this ok] replies show ?thesis by auto
qed

subsection \<open>Calls in sequence\<close>

text \<open>C3: What is written to a new or truncated file and closed is what a later open of the same
  path reads: the same bytes, the same count, and nothing beyond them touched in the buffer.\<close>

theorem tfs_write_read_back:
  assumes "fs_inv s" and "call_ok (fs_params s) (Open path mode) (absf s)"
    and "tfs_open path mode s = Inr (h, s1)" and "h \<noteq> - 1"
    and "has_flag mode TFS_O_TRUNC \<or> Option.bind (name_of path) (dmap s) = None"
    and "unat n = length data" and "data \<noteq> []" and "length data \<le> bsize s" and "n < 2 ^ 63"
    and "tfs_write h data n s1 = Inr (w, s2)" and "w \<noteq> - 1" and "tfs_close h s2 = Inr (c, s3)"
    and "tfs_open path 0 s3 = Inr (h', s4)" and "h' \<noteq> - 1"
    and "tfs_read h' buf m s4 = Inr (k, buf', s5)" and "unat n \<le> unat m" and "unat m \<le> length buf"
  shows "w = int (length data) \<and> c = 0 \<and> k = int (length data) \<and> buf' = data @ drop (length data) buf"
  by (rule tfs.write_read_back [OF assms(1,2), of h s1 n data w s2 c s3 h' s4 buf m k buf' s5])
    (use assms exec_call_of in simp_all)

theorem tfs_write_read_back_witness:
  "\<exists>s1 s2 s3 s4 s5. tfs_open path_f TFS_O_CREAT demo = Inr (0, s1) \<and>
     tfs_write 0 [7, 8] 2 s1 = Inr (2, s2) \<and> tfs_close 0 s2 = Inr (0, s3) \<and>
     tfs_open path_f 0 s3 = Inr (0, s4) \<and> tfs_read 0 [1, 1, 1] 3 s4 = Inr (2, [7, 8, 1], s5)"
proof -
  let ?cs = "[Open path_f TFS_O_CREAT, Write 0 [7, 8] 2, Close 0, Open path_f 0, Read 0 [1, 1, 1] 3]"
  have ok: "allowed small_params ?cs empty_afs" by code_simp
  have "fst (spec_run small_params ?cs empty_afs) = [Ret 0, Ret 2, Ret 0, Ret 0, Bytes 2 [7, 8, 1]]"
    by code_simp
  with demo_after_facts(4) [OF ok] obtain s1 s2 s3 s4 s5 b where st:
    "tfs_open path_f TFS_O_CREAT demo = Inr (0, s1)" "tfs_write 0 [7, 8] 2 s1 = Inr (2, s2)"
    "tfs_close 0 s2 = Inr (0, s3)" "tfs_open path_f 0 s3 = Inr (0, s4)"
    "tfs_read 0 [1, 1, 1] 3 s4 = Inr (2, b, s5)"
    by (auto simp: res_iff simp del: spec_run.simps)
  have call: "call_ok (fs_params demo) (Open path_f TFS_O_CREAT) (absf demo)"
    unfolding demo_facts by code_simp
  have fresh: "Option.bind (name_of path_f) (dmap demo) = None"
    using arg_cong [OF demo_facts(3), of a_dir]
    by (simp add: path_f_def path_name_def SLASH_def empty_afs_def)
  have "b = [7, 8] @ drop 2 [1, 1, 1]"
    using tfs_write_read_back [OF demo_facts(1) call st(1) _ _ _ _ _ _ st(2) _ st(3,4) _ st(5)] fresh
    by (simp add: demo_facts small_params_def)
  with st show ?thesis by auto
qed

subsection \<open>Reading the abstract view\<close>

lemma absf_open_eq:
  assumes "a_open (absf s) h = Some (i, off)"
  shows "h \<in> open_handles s" and "handle_inum s h = i" and "handle_off s h = off"
  using assms by (simp_all split: if_splits)

lemma absf_file_eq:
  assumes "a_file (absf s) k = Some c"
  shows "k \<in> live_inodes s - {0}" and "content s k = c"
  using assms by (simp_all split: if_splits)

subsection \<open>Writes\<close>

lemma sp_write_frame:
  assumes "sp_write p z buf len A = (r, A')" and "sp_lookup A z = Some (i, off)"
  shows "a_dir A' = a_dir A" and "k \<noteq> i \<Longrightarrow> a_file A' k = a_file A k"
    and "r = - 1 \<and> A' = A \<or> r = int (min (unat len) (unat (block_size p) - off)) \<and>
         a_open A' = (a_open A)(nat z \<mapsto> (i, off + min (unat len) (unat (block_size p) - off))) \<or>
         r = 0 \<and> A' = A \<and> min (unat len) (unat (block_size p) - off) = 0"
  using assms by (auto simp: sp_write_def Let_def split: if_splits)

lemma open_lookup: "h \<in> open_handles s \<Longrightarrow> sp_lookup (absf s) (int h) = Some (handle_inum s h, handle_off s h)"
  by (simp add: sp_lookup_def)

lemma write_spec:
  assumes "fs_inv s" and "unat len \<le> length buf" and "len < 2 ^ 63"
    and "tfs_write z buf len s = Inr (r, t)"
  shows "sp_write (fs_params s) z buf len (absf s) = (r, absf t)" and "fs_inv t" and "fs_params t = fs_params s"
  using refine_write [OF assms(1,2), of z] assms(3,4) by (auto simp: refines_def word_less_nat_alt)


text \<open>Two files, the second open at handle 0.\<close>

definition two_files :: "call list" where
  "two_files = [Open path_f TFS_O_CREAT, Write 0 [1, 2] 2, Close 0, Open path_g TFS_O_CREAT]"

lemma two_files_facts:
  "fs_inv (demo_after two_files)" "fs_params (demo_after two_files) = small_params"
  "a_open (absf (demo_after two_files)) 0 = Some (2, 0)"
  "a_open (absf (demo_after two_files)) 1 = None"
  "a_file (absf (demo_after two_files)) 1 = Some [1, 2]"
  "a_file (absf (demo_after two_files)) 2 = Some []"
proof -
  have ok: "allowed small_params two_files empty_afs" by code_simp
  show "fs_inv (demo_after two_files)" "fs_params (demo_after two_files) = small_params"
    using demo_after_facts(1,2) [OF ok] .
  show "a_open (absf (demo_after two_files)) 0 = Some (2, 0)"
    "a_open (absf (demo_after two_files)) 1 = None"
    "a_file (absf (demo_after two_files)) 1 = Some [1, 2]"
    "a_file (absf (demo_after two_files)) 2 = Some []"
    unfolding demo_after_facts(3) [OF ok] by code_simp+
qed

lemma two_files_write:
  "\<exists>t. tfs_write 0 [9, 9, 9] 3 (demo_after two_files) = Inr (3, t)"
proof -
  have "call_ok (fs_params (demo_after two_files)) (Write 0 [9, 9, 9] 3) (absf (demo_after two_files))"
    by simp
  moreover have "fst (sp_write small_params 0 [9, 9, 9] 3 (absf (demo_after two_files))) = 3"
  proof -
    have ok: "allowed small_params two_files empty_afs" by code_simp
    show ?thesis unfolding demo_after_facts(3) [OF ok] by code_simp
  qed
  ultimately show ?thesis
    using refine_write [OF two_files_facts(1), of 3 "[9, 9, 9]" 0] two_files_facts(2)
    by (auto simp: refines_def)
qed


text \<open>C15: A write through an open handle either fails and changes nothing, or writes as much as
  fits in the one block of the file: it returns the number of bytes written, moves the offset
  by that number, and never past the end of the block.\<close>

theorem tfs_write_bounds:
  assumes "fs_inv s" and "h \<in> open_handles s" and "unat len \<le> length buf" and "len < 2 ^ 63"
    and "tfs_write (int h) buf len s = Inr (r, t)"
  shows "r = - 1 \<and> absf t = absf s \<or>
         r = int (min (unat len) (bsize s - handle_off s h)) \<and>
         a_open (absf t) h = Some (handle_inum s h, handle_off s h + nat r) \<and>
         handle_off s h + nat r \<le> bsize s"
proof -
  have ok: "fs_ok s" using assms(1) by (simp add: fs_inv_def)
  have off: "handle_off s h \<le> bsize s"
    using handle_facts(1,4) [OF ok assms(2)] fs_okD(5) [OF ok] by (force simp: inode_ok_def)
  have "absf t = absf s \<Longrightarrow> a_open (absf t) h = Some (handle_inum s h, handle_off s h)"
    using assms(2) by simp
  with sp_write_frame(3) [OF write_spec(1) [OF assms(1,3-5)] open_lookup [OF assms(2)]] off
  show ?thesis by (elim disjE conjE) (auto simp del: absf_simps)
qed

theorem tfs_write_bounds_witness:
  "\<exists>t. tfs_write 0 [9, 9, 9] 3 (demo_after two_files) = Inr (3, t) \<and> a_open (absf t) 0 = Some (2, 3)"
proof -
  obtain t where t: "tfs_write (int 0) [9, 9, 9] 3 (demo_after two_files) = Inr (3, t)"
    using two_files_write by auto
  note h = absf_open_eq [OF two_files_facts(3)]
  have "a_open (absf t) 0 = Some (2, 3)"
    using tfs_write_bounds [OF two_files_facts(1) h(1) _ _ t] h(2,3) by (simp del: absf_simps)
  then show ?thesis using t by auto
qed

definition unlocks :: "('a \<Rightarrow> fs_state) \<Rightarrow> 'a res \<Rightarrow> bool" where
  "unlocks st r \<longleftrightarrow> (\<forall>x. r = Inr x \<longrightarrow> \<not> g_library_mutex (st x))"

lemma unlocks_intros:
  "(\<And>x. unlocks st (f x)) \<Longrightarrow> unlocks st (res_bind r f)"
  "unlocks st q \<Longrightarrow> unlocks st q' \<Longrightarrow> unlocks st (if b then q else q')"
  "(\<And>x y. unlocks st (g x y)) \<Longrightarrow> unlocks st (case p of (x, y) \<Rightarrow> g x y)"
  "unlocks snd (Inr (unlock_return s v))"
  by (auto simp: unlocks_def res_iff unlock_return_eq split: prod.splits)

lemma unlocks_lock:
  "(\<And>t. unlocks st (g t)) \<Longrightarrow>
     unlocks st (res_bind (mutex_lock s) (\<lambda>(r, s). if r = - 1 then q r s else g s))"
  by (auto simp: unlocks_def mutex_lock_def)

lemma unlocks_let:
  fixes w :: size_t
  shows "(\<And>x. unlocks st (f x)) \<Longrightarrow> unlocks st (let x = w in f x)"
  by (simp add: Let_def)

lemma unlocks_read: "unlocks (snd \<circ> snd) (let (v, s) = unlock_return s w in Inr (v, b, s))"
  by (simp add: unlocks_def unlock_return_eq)

lemma op_unlocks:
  "unlocks snd (tfs_open path mode s)"
  "unlocks snd (tfs_close z s)"
  "unlocks snd (tfs_write z buf len s)"
  "unlocks (snd \<circ> snd) (tfs_read z buf len s)"
  "unlocks snd (tfs_unlink path s)"
  unfolding tfs_open_def tfs_close_def tfs_write_def tfs_read_def tfs_unlink_def
  by (rule unlocks_lock, intro unlocks_intros unlocks_let unlocks_read)+

lemma exec_call_locked: "g_library_mutex s \<Longrightarrow> exec_call c s = Inl Deadlock"
  by (cases c) (simp_all add: tfs_open_def tfs_close_def tfs_write_def tfs_read_def tfs_unlink_def
      mutex_lock_def)

lemma exec_call_unlocks: "exec_call c s = Inr (r, t) \<Longrightarrow> \<not> g_library_mutex t"
  using op_unlocks by (cases c) (fastforce simp: res_iff unlocks_def)+

text \<open>Every public operation releases the library lock on every way it returns, from any
  state at all; and called while the lock is held it never returns.\<close>

theorem tfs_lock_discipline:
  "(g_library_mutex s \<longrightarrow> exec_call c s = Inl Deadlock) \<and>
   (\<forall>r t. exec_call c s = Inr (r, t) \<longrightarrow> \<not> g_library_mutex t)"
  using exec_call_locked exec_call_unlocks by blast

theorem tfs_lock_discipline_witness:
  "exec_call (Close 0) (demo\<lparr>g_library_mutex := True\<rparr>) = Inl Deadlock"
  using tfs_lock_discipline [of "demo\<lparr>g_library_mutex := True\<rparr>" "Close 0"]
  by (simp del: exec_call.simps)

text \<open>A number that is not an open handle is refused by close, write and read: \<open>-1\<close>, and
  neither the file system nor the buffer changes.\<close>

theorem tfs_bad_handle:
  assumes "fs_inv s" and "\<not> (0 \<le> z \<and> nat z \<in> open_handles s)"
  shows "tfs_close z s = Inr (- 1, s) \<and> tfs_write z buf len s = Inr (- 1, s) \<and>
         tfs_read z buf len s = Inr (- 1, buf, s)"
  using bad_handle_ops [OF assms(1)] assms(2) by (simp add: bad_handle_def)

theorem tfs_bad_handle_witness: "tfs_read (- 1) [5, 6] 2 demo = Inr (- 1, [5, 6], demo)"
  using tfs_bad_handle [OF demo_facts(1), of "- 1" "[5, 6]" 2] by simp

text \<open>C18: \<open>tfs_init\<close> on a stopped file system, with parameters that fit the integer types and
  whatever the allocated memory holds, succeeds and leaves an empty file system that satisfies
  the invariant, with the parameters asked for (the default ones for \<open>NULL\<close>).\<close>

theorem tfs_init_establishes:
  assumes "inode_table s = None" and "\<not> g_library_mutex s"
    and "init_ok (case po of Some p \<Rightarrow> p | None \<Rightarrow> tfs_default_params) m"
  shows "\<exists>t. tfs_init po m s = Inr (0, t) \<and> fs_inv t \<and>
           fs_params t = (case po of Some p \<Rightarrow> p | None \<Rightarrow> tfs_default_params) \<and> absf t = empty_afs"
  using fs_inv_init [OF _ assms(1,2)] assms(3) tfs_init_default
  by (cases po) auto

theorem tfs_init_establishes_witness:
  "\<exists>t. tfs_init None used_mallocs cold = Inr (0, t) \<and> fs_inv t \<and> n_files t = 16 \<and> absf t = empty_afs"
proof -
  have "init_ok tfs_default_params used_mallocs"
    by (simp add: init_ok_def params_ok_def mallocs_ok_def tfs_default_params_def used_mallocs_def)
  then show ?thesis
    using tfs_init_establishes [of cold None used_mallocs] by (simp add: cold_def) (auto simp: tfs_default_params_def)
qed





subsection \<open>Names\<close>

text \<open>C14: After an unlink, whatever it returned, the path names nothing: opening it without
  \<open>TFS_O_CREAT\<close> fails and changes nothing.\<close>

theorem tfs_unlinked_gone:
  assumes "fs_inv s" and "call_ok (fs_params s) (Unlink path) (absf s)"
    and "tfs_unlink path s = Inr (r, s1)" and "\<not> has_flag mode TFS_O_CREAT"
    and "tfs_open path mode s1 = Inr (q, s2)"
  shows "q = - 1 \<and> absf s2 = absf s1"
  using tfs.unlinked_gone [OF assms(1,2) _ assms(4), of "Ret r" s1 "Ret q" s2] assms(3,5)
  by (simp add: exec_call_of)

theorem tfs_unlinked_gone_witness:
  "\<exists>s1 s2. tfs_unlink path_f (demo_after two_files) = Inr (0, s1) \<and>
           tfs_open path_f 0 s1 = Inr (- 1, s2) \<and> absf s2 = absf s1"
proof -
  let ?cs = "two_files @ [Unlink path_f, Open path_f 0]"
  have ok: "allowed small_params two_files empty_afs" "allowed small_params [Unlink path_f, Open path_f 0]
      (snd (spec_run small_params two_files empty_afs))" by code_simp+
  note st = demo_after_facts [OF ok(1)]
  have "\<exists>rs t. run [Unlink path_f, Open path_f 0] (demo_after two_files) = Inr (rs, t)"
    "call_ok small_params (Unlink path_f) (absf (demo_after two_files))"
    using tfs.run_refines [of "demo_after two_files" "[Unlink path_f, Open path_f 0]"] st ok(2) by auto
  then obtain r s1 q s2 where s: "tfs_unlink path_f (demo_after two_files) = Inr (r, s1)"
    "tfs_open path_f 0 s1 = Inr (q, s2)" "call_ok small_params (Unlink path_f) (absf (demo_after two_files))"
    by (auto simp: res_iff)
  moreover have "r = 0"
  proof -
    have "fst (sp_unlink path_f (absf (demo_after two_files))) = 0" unfolding st(3) by code_simp
    then show ?thesis using refine_unlink [OF st(1), of path_f] s(1,3) st(2) by (auto simp: refines_def)
  qed
  ultimately show ?thesis
    using tfs_unlinked_gone [OF st(1) _ s(1) _ s(2)] st(2) by (auto simp: has_flag_def)
qed



text \<open>C21: With every handle in use, opening a new path with \<open>TFS_O_CREAT\<close> reports failure, but
  the empty file exists afterwards.\<close>

theorem tfs_open_no_handle:
  assumes "fs_inv s" and "call_ok (fs_params s) (Open path mode) (absf s)"
    and "tfs_open path mode s = Inr (r, s1)"
    and "name_of path = Some nm" and "dmap s nm = None" and "has_flag mode TFS_O_CREAT"
    and "length nm < 40" and "\<not> sp_dir_full (fs_params s) (absf s)"
    and "length (sp_files (fs_params s) (absf s)) + 1 < n_inodes s"
    and "open_handles s = {..<n_files s}"
  shows "r = - 1 \<and> (\<exists>i. dmap s1 nm = Some i \<and> a_file (absf s1) i = Some [])"
proof -
  have "\<forall>h < unat (max_open_files_count (fs_params s)). a_open (absf s) h \<noteq> None" using assms(10) by simp
  note r = tfs.open_no_handle [OF assms(1,2) _ assms(4) _ assms(6-9) this, of "Ret r" s1]
  show ?thesis
    using r assms(3,5) by (simp_all only: exec_call_of absf_simps(1) reply.inject simp_thms)
qed

theorem tfs_open_no_handle_witness:
  "\<exists>t. tfs_open path_g TFS_O_CREAT (demo_after [Open path_f TFS_O_CREAT, Open path_f 0]) = Inr (- 1, t) \<and>
       (\<exists>i. dmap t [103] = Some i)"
proof -
  let ?cs = "[Open path_f TFS_O_CREAT, Open path_f 0]"
  let ?s = "demo_after ?cs"
  have ok: "allowed small_params ?cs empty_afs" by code_simp
  note st = demo_after_facts [OF ok]
  have call: "call_ok (fs_params ?s) (Open path_g TFS_O_CREAT) (absf ?s)" unfolding st(2,3) by code_simp
  obtain r t where t: "tfs_open path_g TFS_O_CREAT ?s = Inr (r, t)"
    using refine_open [OF st(1) call] by (auto simp: refines_def)
  have "a_dir (absf ?s) [103] = None" unfolding st(3) by code_simp
  then have none: "dmap ?s [103] = None" by simp
  have room: "\<not> sp_dir_full (fs_params ?s) (absf ?s)"
    "length (sp_files (fs_params ?s) (absf ?s)) + 1 < n_inodes ?s"
    unfolding st(2,3) by code_simp+
  have "a_open (absf ?s) 0 \<noteq> None" "a_open (absf ?s) 1 \<noteq> None" unfolding st(3) by code_simp+
  then have "{0, 1} \<subseteq> open_handles ?s" by (simp split: if_splits)
  moreover have "open_handles ?s \<subseteq> {..<2}"
    using open_bound [of ?s] st(1,2) by (auto simp: fs_inv_def fs_ok_def dir_wf_def small_params_def)
  moreover have "n_files ?s = 2" by (simp add: st(2) small_params_def)
  moreover have "{..<2::nat} = {0, 1}" by auto
  ultimately have full: "open_handles ?s = {..<n_files ?s}" by (metis subset_antisym)
  have "r = - 1" "\<exists>i. dmap t [103] = Some i"
    using tfs_open_no_handle [OF st(1) call t _ none _ _ room full]
    by (auto simp: path_g_def path_name_def SLASH_def has_flag_def TFS_O_CREAT_def)
  then show ?thesis using t by auto
qed

subsection \<open>Stale handles\<close>

text \<open>A file system with room for one name, two inodes and two blocks, to run the calls on.\<close>

definition tiny :: fs_state where
  "tiny = (case tfs_init (Some \<lparr>max_inode_count = 2, max_block_count = 2, max_open_files_count = 2,
                               block_size = 44\<rparr>) used_mallocs cold of
             Inr (r, s) \<Rightarrow> s | Inl _ \<Rightarrow> cold)"


lemma read_past_blocks:
  "map_sum id fst (run [Open path_f TFS_O_CREAT, Write 0 [1, 2, 3, 4] 4, Open path_f TFS_O_TRUNC,
      Read 0 [0, 0] 2, Read 0 (replicate 40 0) 40] tiny) = Inl Out_of_bounds"
  by code_simp

lemma read_past_file:
  "map_sum id fst (run [Open path_f TFS_O_CREAT, Write 0 [1, 2, 3, 4] 4, Open path_f TFS_O_TRUNC,
      Read 1 [0, 0] 2, Read 0 [0, 0] 2] tiny) =
   Inr [Ret 0, Ret 4, Ret 1, Bytes 0 [0, 0], Bytes 2 [102, 102]]"
  by code_simp


subsection \<open>Directories and allocation\<close>

text \<open>C22: Adding a name to the root directory, if there is room, makes it and no other name
  findable under the new inode number; clearing it again restores the directory.\<close>

theorem root_add_find_clear:
  assumes "dir_wf s" and "name_ok nm" and "dmap s nm = None" and "i < 2 ^ 31"
    and "add_dir_entry (Some 0) (Some (nm @ [0])) (int i) s = Inr (0, s1)" and "name_ok nm'"
  shows "find_in_dir s1 (Some 0) (Some (nm' @ [0])) =
           (if nm' = nm then Inr (int i) else find_in_dir s (Some 0) (Some (nm' @ [0]))) \<and>
         (\<exists>s2. clear_dir_entry (Some 0) (Some (nm @ [0])) s1 = Inr (0, s2) \<and> dir_wf s2 \<and> dmap s2 = dmap s)"
  using root.find_added [OF assms] root.clear_added [OF assms(1-5)] by simp

theorem root_add_find_clear_witness:
  "\<exists>s1. add_dir_entry (Some 0) (Some [103, 0]) 3 (demo_after [Open path_f TFS_O_CREAT]) = Inr (0, s1) \<and>
     find_in_dir s1 (Some 0) (Some [103, 0]) = Inr 3 \<and>
     find_in_dir s1 (Some 0) (Some [102, 0]) = Inr 1"
proof -
  let ?s = "demo_after [Open path_f TFS_O_CREAT]"
  have ok: "allowed small_params [Open path_f TFS_O_CREAT] empty_afs" by code_simp
  note st = demo_after_facts [OF ok]
  have wf: "dir_wf ?s" "fs_ok ?s" using st(1) by (simp_all add: fs_inv_def fs_ok_def)
  have "a_dir (absf ?s) [103] = None" "a_dir (absf ?s) [102] = Some 1" unfolding st(3) by code_simp+
  then have dir: "dmap ?s [103] = None" "dmap ?s [102] = Some 1" by simp_all
  have "\<not> sp_dir_full (fs_params ?s) (absf ?s)" unfolding st(2,3) by code_simp
  then obtain j where "free_entry (dirents ?s) = Some j" using sp_dir_full_iff [OF wf(2)] by auto
  then obtain s1 where s1: "add_dir_entry (Some 0) (Some ([103] @ [0])) (int 3) ?s = Inr (0, s1)"
    using add_in_root [OF wf(1), of "[103, 0]" 3] by simp
  have nm: "name_ok [103]" "name_ok [102]" by (simp_all add: name_ok_def)
  note r = root_add_find_clear [OF wf(1) nm(1) dir(1) _ s1, THEN conjunct1]
  have "find_in_dir ?s (Some 0) (Some [102, 0]) = Inr 1"
    using find_in_root [OF wf(1), of "[102, 0]"] dir(2) by simp
  then show ?thesis using s1 r [OF _ nm(1)] r [OF _ nm(2)] by auto
qed

text \<open>Creating a file inode takes the least free inode number, if there is one, and leaves
  every other inode, live or not, alone; deleting it gives the number back.\<close>

theorem inode_create_delete:
  assumes "fs_ok s" and "inode_create T_FILE s = Inr (r, t)"
  shows "r = - 1 \<and> t = s \<and> live_inodes s = {..<n_inodes s} \<or>
    (\<exists>i. r = int i \<and> i < n_inodes s \<and> i \<notin> live_inodes s \<and> (\<forall>j < i. j \<in> live_inodes s) \<and>
         live_inodes t = insert i (live_inodes s) \<and> inode t i = fresh_file \<and>
         (\<forall>j. j \<noteq> i \<longrightarrow> inode t j = inode s j) \<and>
         (\<exists>u. inode_delete r t = Inr u \<and> live_inodes u = live_inodes s))"
proof -
  note sh = fs_okD(2) [OF assms(1)] and bo = inode_blocks_ok_fs [OF assms(1)]
  show ?thesis
  proof (cases "first_free (arr (freeinode_ts s))")
    case None
    then show ?thesis
      using assms(2) inode_create_file_eq [OF sh] first_free_arr_None [OF shaped_lens(2) [OF sh]] by simp
  next
    case (Some i)
    note i = first_free_arr_Some [OF shaped_lens(2) [OF sh] Some]
    have t: "r = int i" "t = created i s"
      using assms(2) inode_create_file_eq [OF sh] Some by (simp_all add: created_def)
    have "\<forall>j. j \<noteq> i \<longrightarrow> inode t j = inode s j" by (simp add: t created_def)
    moreover have "inode t i = fresh_file" using i sh by (simp add: t created_def)
    moreover have "live_inodes t = insert i (live_inodes s)"
      using i shaped_lens(2) [OF sh] by (simp add: t created_def)
    moreover have "\<exists>u. inode_delete r t = Inr u \<and> live_inodes u = live_inodes s"
      using inodes.alloc_release [OF bo assms(2)] t(1) by auto
    ultimately show ?thesis using t i by blast
  qed
qed

theorem inode_create_delete_witness:
  "\<exists>t. inode_create T_FILE (demo_after two_files) = Inr (3, t) \<and> inode t 3 = fresh_file"
proof -
  have ok: "fs_ok (demo_after two_files)" using two_files_facts(1) by (simp add: fs_inv_def)
  have "least_free (\<lambda>i. i = 0 \<or> a_file (absf (demo_after two_files)) i \<noteq> None) 4 = Some 3"
  proof -
    have al: "allowed small_params two_files empty_afs" by code_simp
    show ?thesis unfolding demo_after_facts(3) [OF al] by code_simp
  qed
  moreover have "n_inodes (demo_after two_files) = 4" using two_files_facts(2) by (simp add: small_params_def)
  ultimately have "inode_create T_FILE (demo_after two_files) = Inr (3, created 3 (demo_after two_files))"
    unfolding inode_create_least [OF ok] by simp
  with inode_create_delete [OF ok this] show ?thesis by auto
qed

end
