(* ===== verification/Monitor.thy ===== *)
theory Monitor
  imports Prelude
begin

text \<open>
  Threads that share a state and call a module whose operations all run under one lock. An
  operation is a sequence of small steps on the shared state with a program point between
  them; the steps of the threads interleave in any order.

  The module is given by three functions: \<open>micro\<close> makes the step at a program point (and
  fails when the thread has to wait or the code faults), \<open>entry\<close> is the point at which a call
  starts, and \<open>result\<close> is the reply at a point at which the call has returned. The locale
  \<open>lock_protected\<close> states what the module must do with its lock; from it follow mutual
  exclusion and that the calls are serializable. \<open>lock_progress\<close> adds that calls made alone
  return, from which follows that all threads can finish.
\<close>

subsection \<open>Threads and steps\<close>

text \<open>A thread has calls still to make, and the call under way with the point it has reached.\<close>

record ('c, 'p) mt_thread =
  th_todo :: "'c list"
  th_pc :: "('c \<times> 'p) option"

text \<open>\<open>mc_log\<close> lists the calls that have returned, in order: the thread, the call, its reply.\<close>

record ('c, 'p, 'r, 's) mt_machine =
  mc_state :: 's
  mc_threads :: "('c, 'p) mt_thread list"
  mc_log :: "(nat \<times> 'c \<times> 'r) list"

definition mt_start :: "'c list list \<Rightarrow> 's \<Rightarrow> ('c, 'p, 'r, 's) mt_machine" where
  "mt_start progs s =
     \<lparr>mc_state = s, mc_threads = map (\<lambda>cs. \<lparr>th_todo = cs, th_pc = None\<rparr>) progs, mc_log = []\<rparr>"

definition set_pc ::
  "nat \<Rightarrow> ('c \<times> 'p) option \<Rightarrow> ('c, 'p, 'r, 's) mt_machine \<Rightarrow> ('c, 'p, 'r, 's) mt_machine" where
  "set_pc i pc m = m\<lparr>mc_threads := (mc_threads m)[i := (mc_threads m ! i)\<lparr>th_pc := pc\<rparr>]\<rparr>"

inductive mt_step ::
  "('p \<Rightarrow> 's \<Rightarrow> ('p \<times> 's) res) \<Rightarrow> ('c \<Rightarrow> 'p) \<Rightarrow> ('p \<Rightarrow> 'r option) \<Rightarrow>
   ('c, 'p, 'r, 's) mt_machine \<Rightarrow> ('c, 'p, 'r, 's) mt_machine \<Rightarrow> bool"
  for micro entry result where
  invoke: "i < length (mc_threads m) \<Longrightarrow> mc_threads m ! i = \<lparr>th_todo = c # cs, th_pc = None\<rparr> \<Longrightarrow>
     mt_step micro entry result m
       (m\<lparr>mc_threads := (mc_threads m)[i := \<lparr>th_todo = cs, th_pc = Some (c, entry c)\<rparr>]\<rparr>)"
| work: "i < length (mc_threads m) \<Longrightarrow> th_pc (mc_threads m ! i) = Some (c, p) \<Longrightarrow>
     micro p (mc_state m) = Inr (q, s) \<Longrightarrow> result q = None \<Longrightarrow>
     mt_step micro entry result m (set_pc i (Some (c, q)) (m\<lparr>mc_state := s\<rparr>))"
| finish: "i < length (mc_threads m) \<Longrightarrow> th_pc (mc_threads m ! i) = Some (c, p) \<Longrightarrow>
     micro p (mc_state m) = Inr (q, s) \<Longrightarrow> result q = Some r \<Longrightarrow>
     mt_step micro entry result m
       (set_pc i None (m\<lparr>mc_state := s, mc_log := mc_log m @ [(i, c, r)]\<rparr>))"

inductive mt_reach ::
  "('p \<Rightarrow> 's \<Rightarrow> ('p \<times> 's) res) \<Rightarrow> ('c \<Rightarrow> 'p) \<Rightarrow> ('p \<Rightarrow> 'r option) \<Rightarrow>
   ('c, 'p, 'r, 's) mt_machine \<Rightarrow> ('c, 'p, 'r, 's) mt_machine \<Rightarrow> bool"
  for micro entry result where
  start: "mt_reach micro entry result m m"
| step: "mt_reach micro entry result m m' \<Longrightarrow> mt_step micro entry result m' m'' \<Longrightarrow>
     mt_reach micro entry result m m''"

inductive_cases mt_stepE: "mt_step micro entry result m m'"

lemma mt_reach_first:
  "mt_reach micro entry result m' m'' \<Longrightarrow> mt_step micro entry result m m' \<Longrightarrow>
     mt_reach micro entry result m m''"
  by (induction rule: mt_reach.induct) (auto intro: mt_reach.intros)

lemma mt_reach_trans:
  "mt_reach micro entry result m' m'' \<Longrightarrow> mt_reach micro entry result m m' \<Longrightarrow>
     mt_reach micro entry result m m''"
  by (induction rule: mt_reach.induct) (auto intro: mt_reach.intros)

subsection \<open>What a machine has done and has still to do\<close>

definition calls_left :: "('c, 'p) mt_thread \<Rightarrow> 'c list" where
  "calls_left t = (case th_pc t of None \<Rightarrow> [] | Some (c, p) \<Rightarrow> [c]) @ th_todo t"

definition calls_of :: "('c, 'p, 'r, 's) mt_machine \<Rightarrow> 'c list" where
  "calls_of m = map (\<lambda>(i, c, r). c) (mc_log m)"

definition replies_of :: "('c, 'p, 'r, 's) mt_machine \<Rightarrow> 'r list" where
  "replies_of m = map (\<lambda>(i, c, r). r) (mc_log m)"

definition calls_by :: "nat \<Rightarrow> ('c, 'p, 'r, 's) mt_machine \<Rightarrow> 'c list" where
  "calls_by i m = map (\<lambda>(i, c, r). c) (filter (\<lambda>e. fst e = i) (mc_log m))"

definition finished :: "('c, 'p, 'r, 's) mt_machine \<Rightarrow> bool" where
  "finished m \<longleftrightarrow> (\<forall>t \<in> set (mc_threads m). calls_left t = [])"

text \<open>The threads at a point where they hold the lock, and those that have started a call.\<close>

definition thread_at :: "('p \<Rightarrow> bool) \<Rightarrow> ('c, 'p, 'r, 's) mt_machine \<Rightarrow> nat \<Rightarrow> bool" where
  "thread_at holds m i \<longleftrightarrow> i < length (mc_threads m) \<and>
     (case th_pc (mc_threads m ! i) of None \<Rightarrow> False | Some (c, p) \<Rightarrow> holds p)"

definition inside :: "('p \<Rightarrow> bool) \<Rightarrow> ('c, 'p, 'r, 's) mt_machine \<Rightarrow> nat set" where
  "inside holds m = {i. thread_at holds m i}"

lemma set_pc_simps [simp]:
  "mc_state (set_pc i pc m) = mc_state m" "mc_log (set_pc i pc m) = mc_log m"
  "length (mc_threads (set_pc i pc m)) = length (mc_threads m)"
  "i < length (mc_threads m) \<Longrightarrow> mc_threads (set_pc i pc m) ! j =
     (if j = i then (mc_threads m ! i)\<lparr>th_pc := pc\<rparr> else mc_threads m ! j)"
  by (simp_all add: set_pc_def)

lemma log_simps [simp]:
  "calls_of (set_pc i pc m) = calls_of m" "replies_of (set_pc i pc m) = replies_of m"
  "calls_by j (set_pc i pc m) = calls_by j m"
  "calls_of (m\<lparr>mc_state := s\<rparr>) = calls_of m" "replies_of (m\<lparr>mc_state := s\<rparr>) = replies_of m"
  "calls_by j (m\<lparr>mc_state := s\<rparr>) = calls_by j m"
  "calls_of (m\<lparr>mc_threads := ts\<rparr>) = calls_of m" "replies_of (m\<lparr>mc_threads := ts\<rparr>) = replies_of m"
  "calls_by j (m\<lparr>mc_threads := ts\<rparr>) = calls_by j m"
  by (simp_all add: calls_of_def replies_of_def calls_by_def)

lemma log_snoc [simp]:
  "calls_of (m\<lparr>mc_log := mc_log m @ [(i, c, r)]\<rparr>) = calls_of m @ [c]"
  "replies_of (m\<lparr>mc_log := mc_log m @ [(i, c, r)]\<rparr>) = replies_of m @ [r]"
  "calls_by j (m\<lparr>mc_log := mc_log m @ [(i, c, r)]\<rparr>) =
     calls_by j m @ (if i = j then [c] else [])"
  by (simp_all add: calls_of_def replies_of_def calls_by_def)

lemma log_state_snoc [simp]:
  "calls_of (m\<lparr>mc_state := s, mc_log := mc_log m @ [(i, c, r)]\<rparr>) = calls_of m @ [c]"
  "replies_of (m\<lparr>mc_state := s, mc_log := mc_log m @ [(i, c, r)]\<rparr>) = replies_of m @ [r]"
  "calls_by j (m\<lparr>mc_state := s, mc_log := mc_log m @ [(i, c, r)]\<rparr>) =
     calls_by j m @ (if i = j then [c] else [])"
  by (simp_all add: calls_of_def replies_of_def calls_by_def)

lemma inside_set_pc:
  "i < length (mc_threads m) \<Longrightarrow> inside holds (set_pc i pc m) =
     (if case pc of None \<Rightarrow> False | Some (c, p) \<Rightarrow> holds p then insert i (inside holds m)
      else inside holds m - {i})"
  by (auto simp: inside_def thread_at_def split: if_splits)

lemma inside_upd [simp]:
  "inside holds (m\<lparr>mc_state := s\<rparr>) = inside holds m"
  "inside holds (m\<lparr>mc_log := es\<rparr>) = inside holds m"
  by (simp_all add: inside_def thread_at_def)

lemma finished_no_step:
  assumes "finished m"
  shows "\<not> mt_step micro entry result m m'"
proof
  assume "mt_step micro entry result m m'"
  moreover have "calls_left (mc_threads m ! i) = []" if "i < length (mc_threads m)" for i
    using assms that by (simp add: finished_def)
  ultimately show False by (elim mt_stepE) (fastforce simp: calls_left_def)+
qed

text \<open>The order of the calls of one thread is kept, whatever the module does.\<close>

definition in_order :: "'c list list \<Rightarrow> ('c, 'p, 'r, 's) mt_machine \<Rightarrow> bool" where
  "in_order progs m \<longleftrightarrow> length (mc_threads m) = length progs \<and>
     (\<forall>e \<in> set (mc_log m). fst e < length progs) \<and>
     (\<forall>i < length progs. calls_by i m @ calls_left (mc_threads m ! i) = progs ! i)"

lemma in_order_start: "in_order progs (mt_start progs s)"
  by (simp add: in_order_def mt_start_def calls_left_def calls_by_def)

lemma in_order_step:
  assumes "mt_step micro entry result m m'" and "in_order progs m"
  shows "in_order progs m'"
  using assms
proof (induction rule: mt_step.induct)
  case (invoke i m c cs)
  then show ?case by (auto simp: in_order_def calls_left_def nth_list_update)
next
  case (work i m c p q s)
  then show ?case by (auto simp: in_order_def calls_left_def)
next
  case (finish i m c p q s r)
  then show ?case by (auto simp: in_order_def calls_left_def)
qed

lemma in_order_calls:
  assumes "in_order progs m" and "\<forall>cs \<in> set progs. \<forall>c \<in> set cs. P c"
  shows "\<forall>c \<in> set (calls_of m). P c"
    and "i < length progs \<Longrightarrow> \<forall>c \<in> set (calls_left (mc_threads m ! i)). P c"
proof -
  have all: "\<forall>c \<in> set (calls_by i m @ calls_left (mc_threads m ! i)). P c" if "i < length progs" for i
    using assms that by (auto simp: in_order_def)
  then show "i < length progs \<Longrightarrow> \<forall>c \<in> set (calls_left (mc_threads m ! i)). P c" by simp
  show "\<forall>c \<in> set (calls_of m). P c"
  proof
    fix c
    assume "c \<in> set (calls_of m)"
    then obtain i r where e: "(i, c, r) \<in> set (mc_log m)" by (auto simp: calls_of_def)
    then have "i < length progs" "c \<in> set (calls_by i m)"
      using assms(1) by (force simp: in_order_def calls_by_def)+
    then show "P c" using all [of i] by simp
  qed
qed

subsection \<open>One lock\<close>

text \<open>
  \<open>holds p\<close>: at \<open>p\<close> the thread has taken the lock and not yet released it; \<open>held s\<close>: in \<open>s\<close>
  somebody has. \<open>exec\<close> is the whole call made by one thread alone, and \<open>rest p\<close> what is left of
  it at \<open>p\<close>. A call waits at its entry while the lock is held, takes it with its first step,
  keeps it at every point and releases it with its last step.
\<close>

locale lock_protected =
  fixes micro :: "'p \<Rightarrow> 's \<Rightarrow> ('p \<times> 's) res"
    and entry :: "'c \<Rightarrow> 'p"
    and result :: "'p \<Rightarrow> 'r option"
    and holds :: "'p \<Rightarrow> bool"
    and held :: "'s \<Rightarrow> bool"
    and exec :: "'c \<Rightarrow> 's \<Rightarrow> ('r \<times> 's) res"
    and rest :: "'p \<Rightarrow> 's \<Rightarrow> ('r \<times> 's) res"
  assumes entry_waits: "\<not> holds (entry c)"
    and lock_step: "micro (entry c) s = Inr (q, t) \<Longrightarrow>
          \<not> held s \<and> held t \<and> holds q \<and> result q = None"
    and keep_step: "holds p \<Longrightarrow> held s \<Longrightarrow> micro p s = Inr (q, t) \<Longrightarrow> result q = None \<Longrightarrow>
          holds q \<and> held t"
    and unlock_step: "holds p \<Longrightarrow> held s \<Longrightarrow> micro p s = Inr (q, t) \<Longrightarrow> result q = Some r \<Longrightarrow>
          \<not> held t"
    and rest_entry: "rest (entry c) s = exec c s"
    and rest_step: "p = entry c \<or> holds p \<Longrightarrow>
          rest p s = res_bind (micro p s) (\<lambda>(q, t).
            case result q of Some r \<Rightarrow> Inr (r, t) | None \<Rightarrow> rest q t)"
begin

text \<open>The calls of the log lead from \<open>s0\<close> to \<open>s\<close>, the state the last of them left behind; the
  one thread that holds the lock is on the way from \<open>s\<close> to where its call will end.\<close>

definition at_point :: "('c, 'p, 'r, 's) mt_machine \<Rightarrow> nat \<Rightarrow> bool" where
  "at_point m i \<longleftrightarrow> (\<forall>c p. th_pc (mc_threads m ! i) = Some (c, p) \<longrightarrow> holds p \<or> p = entry c)"

definition guarded :: "'s \<Rightarrow> ('c, 'p, 'r, 's) mt_machine \<Rightarrow> bool" where
  "guarded s m \<longleftrightarrow> \<not> held s \<and> (\<forall>i < length (mc_threads m). at_point m i) \<and>
     (mc_state m = s \<and> inside holds m = {} \<or>
      held (mc_state m) \<and>
      (\<exists>i c p. inside holds m = {i} \<and> th_pc (mc_threads m ! i) = Some (c, p) \<and>
         rest p (mc_state m) = exec c s))"

definition mt_inv :: "'c list list \<Rightarrow> 's \<Rightarrow> ('c, 'p, 'r, 's) mt_machine \<Rightarrow> bool" where
  "mt_inv progs s0 m \<longleftrightarrow> in_order progs m \<and>
     (\<exists>s. run_calls (\<lambda>s c. exec c s) (calls_of m) s0 = Inr (replies_of m, s) \<and> guarded s m)"

lemma guarded_inside:
  assumes "guarded s m" and "i < length (mc_threads m)"
    and "th_pc (mc_threads m ! i) = Some (c, p)" and "holds p"
  shows "inside holds m = {i}" and "held (mc_state m)" and "rest p (mc_state m) = exec c s"
proof -
  have "i \<in> inside holds m" using assms(2-4) by (simp add: inside_def thread_at_def)
  then show "inside holds m = {i}" "held (mc_state m)" "rest p (mc_state m) = exec c s"
    using assms(1,3) by (auto simp: guarded_def)
qed

text \<open>A step of a thread that is at its entry is taken only when nobody holds the lock.\<close>

lemma guarded_entry:
  assumes "guarded s m" and "micro (entry c) (mc_state m) = Inr (q, t)"
  shows "mc_state m = s" and "inside holds m = {}" and "held t" and "holds q" and "result q = None"
    and "rest q t = exec c s"
proof -
  show 1: "mc_state m = s" "inside holds m = {}" "held t" "holds q" "result q = None"
    using assms(1) lock_step [OF assms(2)] by (auto simp: guarded_def)
  show "rest q t = exec c s"
    using rest_step [of "entry c" c s] assms(2) 1 by (simp add: rest_entry)
qed

lemma guarded_invoke:
  assumes "guarded s m" and "i < length (mc_threads m)"
    and "mc_threads m ! i = \<lparr>th_todo = c # cs, th_pc = None\<rparr>"
  shows "guarded s (m\<lparr>mc_threads := (mc_threads m)[i := \<lparr>th_todo = cs, th_pc = Some (c, entry c)\<rparr>]\<rparr>)"
    (is "guarded s ?m")
proof -
  have "inside holds ?m = inside holds m"
    using assms(2,3) entry_waits by (auto simp: inside_def thread_at_def nth_list_update)
  moreover have "i \<notin> inside holds m" using assms(3) by (simp add: inside_def thread_at_def)
  ultimately show ?thesis
    using assms by (auto simp: guarded_def at_point_def nth_list_update)
qed

lemma guarded_work:
  assumes g: "guarded s m" and i: "i < length (mc_threads m)"
    and pc: "th_pc (mc_threads m ! i) = Some (c, p)"
    and step: "micro p (mc_state m) = Inr (q, t)" and "result q = None"
  shows "guarded s (set_pc i (Some (c, q)) (m\<lparr>mc_state := t\<rparr>))"
proof -
  have "holds q \<and> held t \<and> rest q t = exec c s \<and> inside holds m \<subseteq> {i}"
  proof (cases "holds p")
    case True
    note in_i = guarded_inside [OF g i pc True]
    then show ?thesis
      using keep_step [OF True in_i(2) step assms(5)] rest_step [of p c "mc_state m"] True step assms(5)
      by simp
  next
    case False
    then have "p = entry c" using g i pc by (auto simp: guarded_def at_point_def)
    then show ?thesis using guarded_entry [OF g] step by simp
  qed
  moreover from this have "inside holds (set_pc i (Some (c, q)) (m\<lparr>mc_state := t\<rparr>)) = {i}"
    using i by (auto simp: inside_set_pc)
  ultimately show ?thesis using g i by (auto simp: guarded_def at_point_def)
qed

lemma guarded_finish:
  assumes g: "guarded s m" and i: "i < length (mc_threads m)"
    and pc: "th_pc (mc_threads m ! i) = Some (c, p)"
    and step: "micro p (mc_state m) = Inr (q, t)" and "result q = Some r"
  shows "exec c s = Inr (r, t)"
    and "guarded t (set_pc i None (m\<lparr>mc_state := t, mc_log := mc_log m @ [(i, c, r)]\<rparr>))"
proof -
  have p: "holds p"
  proof (rule ccontr)
    assume "\<not> holds p"
    then have "p = entry c" using g i pc by (auto simp: guarded_def at_point_def)
    then show False using lock_step step assms(5) by fastforce
  qed
  note in_i = guarded_inside [OF g i pc p]
  then show "exec c s = Inr (r, t)"
    using rest_step [of p c "mc_state m"] p step assms(5) by simp
  show "guarded t (set_pc i None (m\<lparr>mc_state := t, mc_log := mc_log m @ [(i, c, r)]\<rparr>))"
    using unlock_step [OF p in_i(2) step assms(5)] g i in_i(1)
    by (auto simp: guarded_def at_point_def inside_set_pc)
qed

lemma mt_inv_step:
  assumes "mt_step micro entry result m m'" and "mt_inv progs s0 m"
  shows "mt_inv progs s0 m'"
proof -
  obtain s where order: "in_order progs m'"
    and run: "run_calls (\<lambda>s c. exec c s) (calls_of m) s0 = Inr (replies_of m, s)"
    and guard: "guarded s m"
    using in_order_step [OF assms(1)] assms(2) by (auto simp: mt_inv_def)
  from assms(1) guard run have
    "\<exists>t. run_calls (\<lambda>s c. exec c s) (calls_of m') s0 = Inr (replies_of m', t) \<and> guarded t m'"
  proof (induction rule: mt_step.induct)
    case (invoke i m c cs)
    then show ?case using guarded_invoke by fastforce
  next
    case (work i m c p q t)
    then show ?case using guarded_work [OF work(5,1-4)] by auto
  next
    case (finish i m c p q t r)
    show ?case
      using finish(6) guarded_finish [OF finish(5,1-4)] by (auto simp: run_calls_snoc)
  qed
  then show ?thesis using order by (simp add: mt_inv_def)
qed

lemma mt_inv_start: "\<not> held s0 \<Longrightarrow> mt_inv progs s0 (mt_start progs s0)"
  by (simp add: mt_inv_def in_order_start guarded_def at_point_def)
    (simp add: mt_start_def calls_of_def replies_of_def inside_def thread_at_def)

lemma mt_inv_reach:
  assumes "mt_reach micro entry result m m'" and "mt_inv progs s0 m"
  shows "mt_inv progs s0 m'"
  using assms by (induction rule: mt_reach.induct) (auto intro: mt_inv_step)

lemma serializable:
  assumes "mt_inv progs s0 m"
  shows "\<exists>s. run_calls (\<lambda>s c. exec c s) (calls_of m) s0 = Inr (replies_of m, s) \<and>
           (inside holds m = {} \<longrightarrow> mc_state m = s) \<and>
           (\<forall>i < length progs. calls_by i m @ calls_left (mc_threads m ! i) = progs ! i)"
  using assms by (auto simp: mt_inv_def in_order_def guarded_def)

lemma exclusion:
  assumes "mt_inv progs s0 m"
  shows "card (inside holds m) \<le> 1 \<and> (held (mc_state m) \<longleftrightarrow> inside holds m \<noteq> {})"
  using assms by (auto simp: mt_inv_def guarded_def)

text \<open>The call of the thread inside will end as it would have, had it been alone from the start.\<close>

lemma on_its_way:
  assumes "mt_inv progs s0 m" and "i < length (mc_threads m)"
    and "th_pc (mc_threads m ! i) = Some (c, p)" and "holds p"
  shows "\<exists>s. run_calls (\<lambda>s c. exec c s) (calls_of m) s0 = Inr (replies_of m, s) \<and>
           rest p (mc_state m) = exec c s"
  using assms guarded_inside(3) by (fastforce simp: mt_inv_def)

end

subsection \<open>Progress\<close>

text \<open>
  \<open>good\<close> states allow every \<open>safe\<close> call: made alone, it returns and leaves a good state. Each
  step of a call has a lower \<open>rank\<close> than the one before.
\<close>

definition thread_work :: "('c \<Rightarrow> 'p) \<Rightarrow> ('p \<Rightarrow> nat) \<Rightarrow> ('c, 'p) mt_thread \<Rightarrow> nat" where
  "thread_work entry rank t =
     sum_list (map (\<lambda>c. Suc (rank (entry c))) (th_todo t)) +
     (case th_pc t of None \<Rightarrow> 0 | Some (c, p) \<Rightarrow> rank p)"

definition work_left :: "('c \<Rightarrow> 'p) \<Rightarrow> ('p \<Rightarrow> nat) \<Rightarrow> ('c, 'p, 'r, 's) mt_machine \<Rightarrow> nat" where
  "work_left entry rank m = sum_list (map (thread_work entry rank) (mc_threads m))"

lemma work_less:
  assumes "i < length (mc_threads m)" and "mc_threads m' = (mc_threads m)[i := t]"
    and "thread_work entry rank t < thread_work entry rank (mc_threads m ! i)"
  shows "work_left entry rank m' < work_left entry rank m"
proof -
  let ?w = "thread_work entry rank"
  have "?w (mc_threads m ! i) \<le> sum_list (map ?w (mc_threads m))"
    using assms(1) member_le_sum_list [of "?w (mc_threads m ! i)" "map ?w (mc_threads m)"] by simp
  then show ?thesis using assms by (simp add: work_left_def map_update sum_list_update)
qed

lemma mt_step_work:
  assumes "mt_step micro entry result m m'"
    and "\<And>p s q t. micro p s = Inr (q, t) \<Longrightarrow> rank q < rank p"
  shows "work_left entry rank m' < work_left entry rank m"
  using assms(1)
proof (induction rule: mt_step.induct)
  case (invoke i m c cs)
  show ?case by (rule work_less [OF invoke(1)]) (use invoke(2) in \<open>auto simp: thread_work_def\<close>)
next
  case (work i m c p q s)
  show ?case
    by (rule work_less [OF work(1)])
      (use work assms(2) in \<open>auto simp: thread_work_def set_pc_def\<close>)
next
  case (finish i m c p q s r)
  have "0 < rank p" using assms(2) [OF finish(3)] by simp
  then show ?case
    by (intro work_less [OF finish(1)]) (use finish in \<open>auto simp: thread_work_def set_pc_def\<close>)
qed

locale lock_progress = lock_protected micro entry result holds held exec rest
  for micro :: "'p \<Rightarrow> 's \<Rightarrow> ('p \<times> 's) res"
    and entry :: "'c \<Rightarrow> 'p"
    and result :: "'p \<Rightarrow> 'r option"
    and holds :: "'p \<Rightarrow> bool"
    and held :: "'s \<Rightarrow> bool"
    and exec :: "'c \<Rightarrow> 's \<Rightarrow> ('r \<times> 's) res"
    and rest :: "'p \<Rightarrow> 's \<Rightarrow> ('r \<times> 's) res" +
  fixes good :: "'s \<Rightarrow> bool"
    and safe :: "'c \<Rightarrow> bool"
    and rank :: "'p \<Rightarrow> nat"
  assumes safe_returns: "good s \<Longrightarrow> safe c \<Longrightarrow> \<exists>r t. exec c s = Inr (r, t) \<and> good t"
    and rank_less: "micro p s = Inr (q, t) \<Longrightarrow> rank q < rank p"
begin

lemma work_decreases:
  "mt_step micro entry result m m' \<Longrightarrow> work_left entry rank m' < work_left entry rank m"
  by (erule mt_step_work) (rule rank_less)

lemma run_good:
  assumes "good s" and "\<forall>c \<in> set cs. safe c" and "run_calls (\<lambda>s c. exec c s) cs s = Inr (rs, t)"
  shows "good t"
  using assms
proof (induction cs arbitrary: s rs)
  case (Cons c cs)
  obtain r u where "exec c s = Inr (r, u)" "good u" using safe_returns Cons.prems(1,2) by fastforce
  then show ?case using Cons by (auto simp: res_iff)
qed simp

lemma step_from:
  assumes "p = entry c \<or> holds p" and "rest p s = Inr y"
  shows "\<exists>q t. micro p s = Inr (q, t)"
  using assms rest_step [OF assms(1), of s] by (cases "micro p s") auto

text \<open>A thread that is not done can be found that can make its next step.\<close>

lemma can_work:
  assumes "i < length (mc_threads m)" and "th_pc (mc_threads m ! i) = Some (c, p)"
    and "micro p (mc_state m) = Inr (q, t)"
  shows "\<exists>m'. mt_step micro entry result m m'"
proof (cases "result q")
  case None
  from mt_step.work [OF assms(1,2), of micro q t result entry, OF assms(3) None] show ?thesis by blast
next
  case (Some r)
  from mt_step.finish [OF assms(1,2), of micro q t result r entry, OF assms(3) Some] show ?thesis by blast
qed

lemma progress:
  assumes inv: "mt_inv progs s0 m" and "good s0" and safe: "\<forall>cs \<in> set progs. \<forall>c \<in> set cs. safe c"
    and "\<not> finished m"
  shows "\<exists>m'. mt_step micro entry result m m'"
proof -
  obtain s where order: "in_order progs m"
    and run: "run_calls (\<lambda>s c. exec c s) (calls_of m) s0 = Inr (replies_of m, s)"
    and guard: "guarded s m"
    using inv by (auto simp: mt_inv_def)
  have len: "length (mc_threads m) = length progs" using order by (simp add: in_order_def)
  have good: "good s" by (rule run_good [OF assms(2) in_order_calls(1) [OF order safe] run])
  have returns: "\<exists>r u. exec c s = Inr (r, u)"
    if "i < length (mc_threads m)" "th_pc (mc_threads m ! i) = Some (c, p)" for i c p
    using safe_returns [OF good, of c] in_order_calls(2) [OF order safe, of i] that len
    by (auto simp: calls_left_def)
  show ?thesis
  proof (cases "inside holds m = {}")
    case False
    then obtain i c p where i: "i < length (mc_threads m)" "th_pc (mc_threads m ! i) = Some (c, p)"
      "holds p" by (auto simp: inside_def thread_at_def split: option.splits)
    then obtain y where "rest p (mc_state m) = Inr y"
      using guarded_inside(3) [OF guard i] returns [OF i(1,2)] by auto
    then show ?thesis using step_from [of p c "mc_state m"] can_work [OF i(1,2)] i(3) by blast
  next
    case True
    then have free: "mc_state m = s" using guard by (auto simp: guarded_def)
    obtain i where i: "i < length (mc_threads m)" "calls_left (mc_threads m ! i) \<noteq> []"
      using assms(4) by (auto simp: finished_def in_set_conv_nth)
    show ?thesis
    proof (cases "th_pc (mc_threads m ! i)")
      case None
      then obtain c cs where "mc_threads m ! i = \<lparr>th_todo = c # cs, th_pc = None\<rparr>"
        using i(2) by (cases "mc_threads m ! i"; cases "th_todo (mc_threads m ! i)") (auto simp: calls_left_def)
      from mt_step.invoke [OF i(1) this] show ?thesis by blast
    next
      case (Some e)
      obtain c p where e: "th_pc (mc_threads m ! i) = Some (c, p)" using Some by (cases e) auto
      then have "p = entry c"
        using guard i(1) True by (fastforce simp: guarded_def at_point_def inside_def thread_at_def)
      moreover obtain y where "exec c s = Inr y" using returns [OF i(1) e] by auto
      ultimately show ?thesis
        using step_from [of p c s] can_work [OF i(1) e] free rest_entry by metis
    qed
  qed
qed

lemma can_finish:
  assumes "mt_inv progs s0 m" and "good s0" and "\<forall>cs \<in> set progs. \<forall>c \<in> set cs. safe c"
  shows "\<exists>m'. mt_reach micro entry result m m' \<and> finished m'"
  using assms(1)
proof (induction m rule: measure_induct_rule [where f = "work_left entry rank"])
  case (less m)
  show ?case
  proof (cases "finished m")
    case False
    from progress [OF less.prems assms(2,3) this] obtain m1 where
      m1: "mt_step micro entry result m m1" by blast
    from less.IH [OF work_decreases [OF m1] mt_inv_step [OF m1 less.prems]] show ?thesis
      using mt_reach_first m1 by blast
  qed (blast intro: mt_reach.start)
qed

text \<open>What has happened once all threads are done.\<close>

lemma finished_state:
  assumes "mt_inv progs s0 m" and "finished m"
  shows "run_calls (\<lambda>s c. exec c s) (calls_of m) s0 = Inr (replies_of m, mc_state m)"
    and "i < length progs \<Longrightarrow> calls_by i m = progs ! i"
proof -
  obtain s where order: "in_order progs m"
    and run: "run_calls (\<lambda>s c. exec c s) (calls_of m) s0 = Inr (replies_of m, s)"
    and guard: "guarded s m"
    using assms(1) by (auto simp: mt_inv_def)
  have none: "calls_left (mc_threads m ! i) = []" if "i < length (mc_threads m)" for i
    using assms(2) that by (simp add: finished_def)
  then have "inside holds m = {}"
    by (fastforce simp: inside_def thread_at_def calls_left_def split: option.splits)
  then show "run_calls (\<lambda>s c. exec c s) (calls_of m) s0 = Inr (replies_of m, mc_state m)"
    using guard run by (auto simp: guarded_def)
  show "i < length progs \<Longrightarrow> calls_by i m = progs ! i"
    using order none by (auto simp: in_order_def)
qed

text \<open>No run of the threads is endless: the steps left are bounded by the work left.\<close>

lemma steps_bounded:
  assumes "\<forall>j < n. mt_step micro entry result (f j) (f (Suc j))"
  shows "n \<le> work_left entry rank (f 0)"
proof -
  have "j \<le> n \<Longrightarrow> j + work_left entry rank (f j) \<le> work_left entry rank (f 0)" for j
  proof (induction j)
    case (Suc j)
    then have "work_left entry rank (f (Suc j)) < work_left entry rank (f j)"
      using assms work_decreases by simp
    then show ?case using Suc by simp
  qed simp
  from this [of n] show ?thesis by simp
qed

end

end
