(* ===== verification/TfsMicro.thy ===== *)
theory TfsMicro
  imports AbsFs Monitor
begin

text \<open>
  The public operations of \<open>fs/operations.c\<close> as sequences of small steps, for threads that
  interleave. A program point carries the local variables of the C function that are still
  needed there; a step is one call of a function of \<open>state.c\<close> or one access to the shared
  variables, and reads them afresh as the code does. \<open>TfsOps\<close> models the same functions as
  they run in one thread; the theorem at the end is that the steps, made without
  interruption, are exactly those functions, faults included.
\<close>

subsection \<open>Program points and steps\<close>

text \<open>Named after the function and what it does next. \<open>Lock\<close> is the first line of each.\<close>

datatype open_pc =
    Open_valid c_ptr tfs_file_mode_t
  | Open_root c_ptr tfs_file_mode_t
  | Open_lookup c_ptr tfs_file_mode_t inode_ptr
  | Open_inode tfs_file_mode_t int
  | Open_trunc tfs_file_mode_t int inode_ptr
  | Open_reset tfs_file_mode_t int inode_ptr
  | Open_offset tfs_file_mode_t int inode_ptr
  | Open_create c_ptr inode_ptr
  | Open_entry c_ptr inode_ptr int
  | Open_undo int
  | Open_table int size_t

datatype close_pc =
    Close_get int
  | Close_remove int

datatype write_pc =
    Write_get int "byte list" size_t
  | Write_inode int "byte list" size_t
  | Write_count int "byte list" size_t inode_ptr
  | Write_empty int "byte list" size_t inode_ptr
  | Write_alloc int "byte list" size_t inode_ptr
  | Write_link int "byte list" size_t inode_ptr int
  | Write_block int "byte list" size_t inode_ptr
  | Write_copy int "byte list" size_t inode_ptr nat
  | Write_offset int size_t inode_ptr
  | Write_grow int size_t inode_ptr

datatype read_pc =
    Read_get int "byte list" size_t
  | Read_inode int "byte list" size_t
  | Read_count int "byte list" size_t inode_ptr
  | Read_block int "byte list" size_t inode_ptr
  | Read_copy int "byte list" size_t nat
  | Read_offset int "byte list" size_t

datatype unlink_pc =
    Unlink_valid c_ptr
  | Unlink_root c_ptr
  | Unlink_lookup c_ptr inode_ptr
  | Unlink_delete c_ptr inode_ptr int
  | Unlink_clear c_ptr inode_ptr

datatype tfs_pc =
    Lock call
  | At_open open_pc
  | At_close close_pc
  | At_write write_pc
  | At_read read_pc
  | At_unlink unlink_pc
  | Unlock reply
  | Returned reply

fun first_point :: "call \<Rightarrow> tfs_pc" where
  "first_point (Open name mode) = At_open (Open_valid name mode)"
| "first_point (Close fhandle) = At_close (Close_get fhandle)"
| "first_point (Write fhandle buffer to_write) = At_write (Write_get fhandle buffer to_write)"
| "first_point (Read fhandle buffer len) = At_read (Read_get fhandle buffer len)"
| "first_point (Unlink target) = At_unlink (Unlink_valid target)"

text \<open>What a call replies when the lock or the unlock fails.\<close>

fun failed_call :: "call \<Rightarrow> reply" where
  "failed_call (Read fhandle buffer len) = Bytes (- 1) buffer"
| "failed_call c = Ret (- 1)"

fun failed_reply :: "reply \<Rightarrow> reply" where
  "failed_reply (Bytes n buffer) = Bytes (- 1) buffer"
| "failed_reply (Ret n) = Ret (- 1)"

text \<open>\<open>tfs_open\<close> from the test of the path to the entry in the open file table.\<close>

fun open_step :: "open_pc \<Rightarrow> fs_state \<Rightarrow> (tfs_pc \<times> fs_state) res" where
  "open_step (Open_valid name mode) s =
     res_bind (valid_pathname name) (\<lambda>valid.
       Inr (if valid then At_open (Open_root name mode) else Unlock (Ret (- 1)), s))"
| "open_step (Open_root name mode) s =
     res_bind (inode_get s ROOT_DIR_INUM) (\<lambda>root.
     res_bind (always_assert (root \<noteq> None) ''tfs_open: root dir inode must exist'') (\<lambda>_.
       Inr (At_open (Open_lookup name mode root), s)))"
| "open_step (Open_lookup name mode root) s =
     res_bind (tfs_lookup s name root) (\<lambda>inum.
       Inr (if inum \<ge> 0 then At_open (Open_inode mode inum)
            else if has_flag mode TFS_O_CREAT then At_open (Open_create name root)
            else Unlock (Ret (- 1)), s))"
| "open_step (Open_inode mode inum) s =
     res_bind (inode_get s inum) (\<lambda>ip.
     res_bind (always_assert (ip \<noteq> None) ''tfs_open: directory files must have an inode'') (\<lambda>_.
       Inr (At_open (Open_trunc mode inum ip), s)))"
| "open_step (Open_trunc mode inum ip) s =
     res_bind (load_inode s ip) (\<lambda>inode.
       if has_flag mode TFS_O_TRUNC \<and> i_size inode > 0 then
         res_bind (data_block_free (i_data_block inode) s) (\<lambda>s.
           Inr (At_open (Open_reset mode inum ip), s))
       else Inr (At_open (Open_offset mode inum ip), s))"
| "open_step (Open_reset mode inum ip) s =
     res_bind (load_inode s ip) (\<lambda>inode.
     res_bind (store_inode ip (inode\<lparr>i_size := 0\<rparr>) s) (\<lambda>s.
       Inr (At_open (Open_offset mode inum ip), s)))"
| "open_step (Open_offset mode inum ip) s =
     res_bind (load_inode s ip) (\<lambda>inode.
       Inr (At_open (Open_table inum (if has_flag mode TFS_O_APPEND then i_size inode else 0)), s))"
| "open_step (Open_create name root) s =
     res_bind (inode_create T_FILE s) (\<lambda>(inum, s).
       Inr (if inum = - 1 then Unlock (Ret (- 1)) else At_open (Open_entry name root inum), s))"
| "open_step (Open_entry name root inum) s =
     res_bind (add_dir_entry root (ptr_plus_1 name) inum s) (\<lambda>(r, s).
       Inr (if r = - 1 then At_open (Open_undo inum) else At_open (Open_table inum 0), s))"
| "open_step (Open_undo inum) s =
     res_bind (inode_delete inum s) (\<lambda>s. Inr (Unlock (Ret (- 1)), s))"
| "open_step (Open_table inum offset) s =
     res_bind (add_to_open_file_table inum offset s) (\<lambda>(ret, s). Inr (Unlock (Ret ret), s))"

text \<open>\<open>tfs_close\<close>.\<close>

fun close_step :: "close_pc \<Rightarrow> fs_state \<Rightarrow> (tfs_pc \<times> fs_state) res" where
  "close_step (Close_get fhandle) s =
     res_bind (get_open_file_entry s fhandle) (\<lambda>file.
       Inr (if file = None then Unlock (Ret (- 1)) else At_close (Close_remove fhandle), s))"
| "close_step (Close_remove fhandle) s =
     res_bind (remove_from_open_file_table fhandle s) (\<lambda>s. Inr (Unlock (Ret 0), s))"

text \<open>\<open>tfs_write\<close>; the count is the one that fits the block from \<open>Write_empty\<close> on.\<close>

fun write_step :: "write_pc \<Rightarrow> fs_state \<Rightarrow> (tfs_pc \<times> fs_state) res" where
  "write_step (Write_get fhandle buffer to_write) s =
     res_bind (get_open_file_entry s fhandle) (\<lambda>file.
       Inr (if file = None then Unlock (Ret (- 1))
            else At_write (Write_inode fhandle buffer to_write), s))"
| "write_step (Write_inode fhandle buffer to_write) s =
     res_bind (load_file s fhandle) (\<lambda>file.
     res_bind (inode_get s (of_inumber file)) (\<lambda>ip.
     res_bind (always_assert (ip \<noteq> None) ''tfs_write: inode of open file deleted'') (\<lambda>_.
       Inr (At_write (Write_count fhandle buffer to_write ip), s))))"
| "write_step (Write_count fhandle buffer to_write ip) s =
     res_bind (load_file s fhandle) (\<lambda>file.
     let bs = state_block_size s;
         to_write = (if to_write + of_offset file > bs then bs - of_offset file else to_write) in
       Inr (if to_write > 0 then At_write (Write_empty fhandle buffer to_write ip)
            else Unlock (Ret (sint to_write)), s))"
| "write_step (Write_empty fhandle buffer to_write ip) s =
     res_bind (load_inode s ip) (\<lambda>inode.
       Inr (if i_size inode = 0 then At_write (Write_alloc fhandle buffer to_write ip)
            else At_write (Write_block fhandle buffer to_write ip), s))"
| "write_step (Write_alloc fhandle buffer to_write ip) s =
     res_bind (data_block_alloc s) (\<lambda>(bnum, s).
       Inr (if bnum = - 1 then Unlock (Ret (- 1))
            else At_write (Write_link fhandle buffer to_write ip bnum), s))"
| "write_step (Write_link fhandle buffer to_write ip bnum) s =
     res_bind (load_inode s ip) (\<lambda>inode.
     res_bind (store_inode ip (inode\<lparr>i_data_block := bnum\<rparr>) s) (\<lambda>s.
       Inr (At_write (Write_block fhandle buffer to_write ip), s)))"
| "write_step (Write_block fhandle buffer to_write ip) s =
     res_bind (load_inode s ip) (\<lambda>inode.
     res_bind (data_block_get s (i_data_block inode)) (\<lambda>block.
     res_bind (always_assert (block \<noteq> None) ''tfs_write: data block deleted mid-write'') (\<lambda>_.
     res_bind (deref_block block) (\<lambda>a.
       Inr (At_write (Write_copy fhandle buffer to_write ip a), s)))))"
| "write_step (Write_copy fhandle buffer to_write ip a) s =
     res_bind (load_file s fhandle) (\<lambda>file.
     res_bind (mem_load (Some buffer) 0 (unat to_write)) (\<lambda>bs.
     res_bind (store_bytes (a + unat (of_offset file)) bs s) (\<lambda>s.
       Inr (At_write (Write_offset fhandle to_write ip), s))))"
| "write_step (Write_offset fhandle to_write ip) s =
     res_bind (load_file s fhandle) (\<lambda>file.
     res_bind (store_file fhandle (file\<lparr>of_offset := of_offset file + to_write\<rparr>) s) (\<lambda>s.
       Inr (At_write (Write_grow fhandle to_write ip), s)))"
| "write_step (Write_grow fhandle to_write ip) s =
     res_bind (load_file s fhandle) (\<lambda>file.
     res_bind (load_inode s ip) (\<lambda>inode.
     res_bind
       (if of_offset file > i_size inode then store_inode ip (inode\<lparr>i_size := of_offset file\<rparr>) s
        else Inr s) (\<lambda>s.
       Inr (Unlock (Ret (sint to_write)), s))))"

text \<open>\<open>tfs_read\<close>; the count from \<open>Read_block\<close> on is the one to copy.\<close>

fun read_step :: "read_pc \<Rightarrow> fs_state \<Rightarrow> (tfs_pc \<times> fs_state) res" where
  "read_step (Read_get fhandle buffer len) s =
     res_bind (get_open_file_entry s fhandle) (\<lambda>file.
       Inr (if file = None then Unlock (Bytes (- 1) buffer)
            else At_read (Read_inode fhandle buffer len), s))"
| "read_step (Read_inode fhandle buffer len) s =
     res_bind (load_file s fhandle) (\<lambda>file.
     res_bind (inode_get s (of_inumber file)) (\<lambda>ip.
     res_bind (always_assert (ip \<noteq> None) ''tfs_read: inode of open file deleted'') (\<lambda>_.
       Inr (At_read (Read_count fhandle buffer len ip), s))))"
| "read_step (Read_count fhandle buffer len ip) s =
     res_bind (load_inode s ip) (\<lambda>inode.
     res_bind (load_file s fhandle) (\<lambda>file.
     let to_read = i_size inode - of_offset file;
         to_read = (if to_read > len then len else to_read) in
       Inr (if to_read > 0 then At_read (Read_block fhandle buffer to_read ip)
            else Unlock (Bytes (sint to_read) buffer), s)))"
| "read_step (Read_block fhandle buffer to_read ip) s =
     res_bind (load_inode s ip) (\<lambda>inode.
     res_bind (data_block_get s (i_data_block inode)) (\<lambda>block.
     res_bind (always_assert (block \<noteq> None) ''tfs_read: data block deleted mid-read'') (\<lambda>_.
     res_bind (deref_block block) (\<lambda>a.
       Inr (At_read (Read_copy fhandle buffer to_read a), s)))))"
| "read_step (Read_copy fhandle buffer to_read a) s =
     res_bind (load_file s fhandle) (\<lambda>file.
     res_bind (mem_load (fs_data s) (a + unat (of_offset file)) (unat to_read)) (\<lambda>bs.
     res_bind (mem_store (Some buffer) 0 bs) (\<lambda>buffer.
       Inr (At_read (Read_offset fhandle (case buffer of Some b \<Rightarrow> b | None \<Rightarrow> []) to_read), s))))"
| "read_step (Read_offset fhandle buffer to_read) s =
     res_bind (load_file s fhandle) (\<lambda>file.
     res_bind (store_file fhandle (file\<lparr>of_offset := of_offset file + to_read\<rparr>) s) (\<lambda>s.
       Inr (Unlock (Bytes (sint to_read) buffer), s)))"

text \<open>\<open>tfs_unlink\<close>.\<close>

fun unlink_step :: "unlink_pc \<Rightarrow> fs_state \<Rightarrow> (tfs_pc \<times> fs_state) res" where
  "unlink_step (Unlink_valid target) s =
     res_bind (valid_pathname target) (\<lambda>valid.
       Inr (if valid then At_unlink (Unlink_root target) else Unlock (Ret (- 1)), s))"
| "unlink_step (Unlink_root target) s =
     res_bind (inode_get s ROOT_DIR_INUM) (\<lambda>root.
     res_bind (always_assert (root \<noteq> None) ''tfs_open: root dir inode must exist'') (\<lambda>_.
       Inr (At_unlink (Unlink_lookup target root), s)))"
| "unlink_step (Unlink_lookup target root) s =
     res_bind (tfs_lookup s target root) (\<lambda>inum.
       Inr (if inum = - 1 then Unlock (Ret (- 1)) else At_unlink (Unlink_delete target root inum), s))"
| "unlink_step (Unlink_delete target root inum) s =
     res_bind (inode_delete inum s) (\<lambda>s. Inr (At_unlink (Unlink_clear target root), s))"
| "unlink_step (Unlink_clear target root) s =
     res_bind (clear_dir_entry root (ptr_plus_1 target) s) (\<lambda>(r, s).
       Inr (if r = - 1 then Unlock (Ret (- 1)) else Unlock (Ret 0), s))"

text \<open>Any step of any call. A call that has returned makes none.\<close>

fun tfs_micro :: "tfs_pc \<Rightarrow> fs_state \<Rightarrow> (tfs_pc \<times> fs_state) res" where
  "tfs_micro (Lock c) s =
     res_bind (mutex_lock s) (\<lambda>(r, s).
       Inr (if r = - 1 then Returned (failed_call c) else first_point c, s))"
| "tfs_micro (At_open p) s = open_step p s"
| "tfs_micro (At_close p) s = close_step p s"
| "tfs_micro (At_write p) s = write_step p s"
| "tfs_micro (At_read p) s = read_step p s"
| "tfs_micro (At_unlink p) s = unlink_step p s"
| "tfs_micro (Unlock reply) s =
     (let (r, s) = mutex_unlock s in Inr (Returned (if r = - 1 then failed_reply reply else reply), s))"
| "tfs_micro (Returned reply) s = Inl Waiting"

fun tfs_result :: "tfs_pc \<Rightarrow> reply option" where
  "tfs_result (Returned reply) = Some reply"
| "tfs_result p = None"

text \<open>A thread has the lock from after \<open>Lock\<close> to \<open>Unlock\<close>.\<close>

fun tfs_holds :: "tfs_pc \<Rightarrow> bool" where
  "tfs_holds (Lock c) \<longleftrightarrow> False"
| "tfs_holds (Returned reply) \<longleftrightarrow> False"
| "tfs_holds p \<longleftrightarrow> True"

subsection \<open>Every call ends\<close>

text \<open>A bound on the steps left at each point.\<close>

fun open_rank :: "open_pc \<Rightarrow> nat" where
  "open_rank (Open_valid _ _) = 9" | "open_rank (Open_root _ _) = 8"
| "open_rank (Open_lookup _ _ _) = 7" | "open_rank (Open_inode _ _) = 6"
| "open_rank (Open_trunc _ _ _) = 5" | "open_rank (Open_reset _ _ _) = 4"
| "open_rank (Open_offset _ _ _) = 3" | "open_rank (Open_create _ _) = 4"
| "open_rank (Open_entry _ _ _) = 3" | "open_rank (Open_undo _) = 2" | "open_rank (Open_table _ _) = 2"

fun close_rank :: "close_pc \<Rightarrow> nat" where
  "close_rank (Close_get _) = 3" | "close_rank (Close_remove _) = 2"

fun write_rank :: "write_pc \<Rightarrow> nat" where
  "write_rank (Write_get _ _ _) = 11" | "write_rank (Write_inode _ _ _) = 10"
| "write_rank (Write_count _ _ _ _) = 9" | "write_rank (Write_empty _ _ _ _) = 8"
| "write_rank (Write_alloc _ _ _ _) = 7" | "write_rank (Write_link _ _ _ _ _) = 6"
| "write_rank (Write_block _ _ _ _) = 5" | "write_rank (Write_copy _ _ _ _ _) = 4"
| "write_rank (Write_offset _ _ _) = 3" | "write_rank (Write_grow _ _ _) = 2"

fun read_rank :: "read_pc \<Rightarrow> nat" where
  "read_rank (Read_get _ _ _) = 7" | "read_rank (Read_inode _ _ _) = 6"
| "read_rank (Read_count _ _ _ _) = 5" | "read_rank (Read_block _ _ _ _) = 4"
| "read_rank (Read_copy _ _ _ _) = 3" | "read_rank (Read_offset _ _ _) = 2"

fun unlink_rank :: "unlink_pc \<Rightarrow> nat" where
  "unlink_rank (Unlink_valid _) = 6" | "unlink_rank (Unlink_root _) = 5"
| "unlink_rank (Unlink_lookup _ _) = 4" | "unlink_rank (Unlink_delete _ _ _) = 3"
| "unlink_rank (Unlink_clear _ _) = 2"

fun tfs_rank :: "tfs_pc \<Rightarrow> nat" where
  "tfs_rank (Lock c) = 12"
| "tfs_rank (At_open p) = open_rank p"
| "tfs_rank (At_close p) = close_rank p"
| "tfs_rank (At_write p) = write_rank p"
| "tfs_rank (At_read p) = read_rank p"
| "tfs_rank (At_unlink p) = unlink_rank p"
| "tfs_rank (Unlock reply) = 1"
| "tfs_rank (Returned reply) = 0"

lemma open_step_rank: "open_step p s = Inr (q, t) \<Longrightarrow> tfs_rank q < open_rank p"
  by (cases p) (auto simp: res_iff split: if_splits)

lemma close_step_rank: "close_step p s = Inr (q, t) \<Longrightarrow> tfs_rank q < close_rank p"
  by (cases p) (auto simp: res_iff split: if_splits)

lemma write_step_rank: "write_step p s = Inr (q, t) \<Longrightarrow> tfs_rank q < write_rank p"
  by (cases p) (auto simp: res_iff Let_def split: if_splits)

lemma read_step_rank: "read_step p s = Inr (q, t) \<Longrightarrow> tfs_rank q < read_rank p"
  by (cases p) (auto simp: res_iff Let_def split: if_splits)

lemma unlink_step_rank: "unlink_step p s = Inr (q, t) \<Longrightarrow> tfs_rank q < unlink_rank p"
  by (cases p) (auto simp: res_iff split: if_splits)

lemma first_point_rank: "tfs_rank (first_point c) < 12"
  by (cases c) simp_all

lemmas step_ranks = open_step_rank close_step_rank write_step_rank read_step_rank unlink_step_rank
  first_point_rank

lemma tfs_micro_rank: "tfs_micro p s = Inr (q, t) \<Longrightarrow> tfs_rank q < tfs_rank p"
  by (cases p) (auto simp: mutex_unlock_def res_iff step_ranks split: if_splits)

text \<open>What is left of a call at a point, made without interruption.\<close>

function tfs_rest :: "tfs_pc \<Rightarrow> fs_state \<Rightarrow> (reply \<times> fs_state) res" where
  "tfs_rest p s =
     (case tfs_result p of
        Some r \<Rightarrow> Inr (r, s)
      | None \<Rightarrow> (case tfs_micro p s of Inl e \<Rightarrow> Inl e | Inr (q, t) \<Rightarrow> tfs_rest q t))"
  by pat_completeness auto
termination
  by (relation "measure (\<lambda>(p, s). tfs_rank p)") (auto dest: tfs_micro_rank)

declare tfs_rest.simps [simp del]

subsection \<open>The lock during a call\<close>

text \<open>No function of \<open>state.c\<close> touches the lock of \<open>operations.c\<close>.\<close>

named_theorems keeps_lock \<open>functions of the storage layer leave the library lock as it is\<close>

lemma store_keeps_lock [keeps_lock]:
  "store_inumber a i s = Inr t \<Longrightarrow> g_library_mutex t = g_library_mutex s"
  "store_bytes a bs s = Inr t \<Longrightarrow> g_library_mutex t = g_library_mutex s"
  "store_inode ip v s = Inr t \<Longrightarrow> g_library_mutex t = g_library_mutex s"
  "store_file h f s = Inr t \<Longrightarrow> g_library_mutex t = g_library_mutex s"
  by (auto simp: store_inumber_def store_bytes_def store_inode_def store_file_def res_iff
      split: option.splits)

lemma alloc_keeps_lock [keeps_lock]:
  "data_block_alloc s = Inr (b, t) \<Longrightarrow> g_library_mutex t = g_library_mutex s"
  "data_block_free b s = Inr t \<Longrightarrow> g_library_mutex t = g_library_mutex s"
  "inode_alloc s = Inr (i, t) \<Longrightarrow> g_library_mutex t = g_library_mutex s"
  "add_to_open_file_table i off s = Inr (h, t) \<Longrightarrow> g_library_mutex t = g_library_mutex s"
  "remove_from_open_file_table h s = Inr t \<Longrightarrow> g_library_mutex t = g_library_mutex s"
  by (auto simp: data_block_alloc_def data_block_free_def inode_alloc_def add_to_open_file_table_def
      remove_from_open_file_table_def res_iff split: option.splits)

lemma inode_delete_keeps_lock [keeps_lock]:
  "inode_delete i s = Inr t \<Longrightarrow> g_library_mutex t = g_library_mutex s"
  by (auto simp: inode_delete_def res_iff dest!: keeps_lock split: if_splits)

lemma init_dir_entries_keeps_lock [keeps_lock]:
  "init_dir_entries p i k s = Inr t \<Longrightarrow> g_library_mutex t = g_library_mutex s"
proof (induction k arbitrary: i s)
  case (Suc k)
  then obtain u where "store_inumber (d_inumber_at p i) (- 1) s = Inr u"
    and "init_dir_entries p (Suc i) k u = Inr t" by (auto simp: res_iff)
  then show ?case using Suc.IH store_keeps_lock(1) by metis
qed simp

lemma inode_create_keeps_lock [keeps_lock]:
  "inode_create ty s = Inr (i, t) \<Longrightarrow> g_library_mutex t = g_library_mutex s"
  by (cases ty) (auto simp: inode_create_def res_iff Let_def dest!: keeps_lock split: if_splits)

lemma dir_loops_keep_lock [keeps_lock]:
  "clear_dir_loop p nm i k s = Inr (r, t) \<Longrightarrow> g_library_mutex t = g_library_mutex s"
  "add_dir_loop p nm j i k s = Inr (r, t) \<Longrightarrow> g_library_mutex t = g_library_mutex s"
  by (induction k arbitrary: i) (auto simp: res_iff dest!: keeps_lock split: if_splits)

lemma dir_entry_keeps_lock [keeps_lock]:
  "clear_dir_entry ip nm s = Inr (r, t) \<Longrightarrow> g_library_mutex t = g_library_mutex s"
  "add_dir_entry ip nm j s = Inr (r, t) \<Longrightarrow> g_library_mutex t = g_library_mutex s"
  by (auto simp: clear_dir_entry_def add_dir_entry_def res_iff dest!: keeps_lock split: if_splits)

lemma open_step_keeps_lock:
  "open_step p s = Inr (q, t) \<Longrightarrow> tfs_holds q \<and> g_library_mutex t = g_library_mutex s"
  by (cases p) (auto simp: res_iff dest!: keeps_lock split: if_splits)

lemma close_step_keeps_lock:
  "close_step p s = Inr (q, t) \<Longrightarrow> tfs_holds q \<and> g_library_mutex t = g_library_mutex s"
  by (cases p) (auto simp: res_iff dest!: keeps_lock split: if_splits)

lemma write_step_keeps_lock:
  "write_step p s = Inr (q, t) \<Longrightarrow> tfs_holds q \<and> g_library_mutex t = g_library_mutex s"
  by (cases p) (auto simp: res_iff Let_def dest!: keeps_lock split: if_splits)

lemma read_step_keeps_lock:
  "read_step p s = Inr (q, t) \<Longrightarrow> tfs_holds q \<and> g_library_mutex t = g_library_mutex s"
  by (cases p) (auto simp: res_iff Let_def dest!: keeps_lock split: if_splits)

lemma unlink_step_keeps_lock:
  "unlink_step p s = Inr (q, t) \<Longrightarrow> tfs_holds q \<and> g_library_mutex t = g_library_mutex s"
  by (cases p) (auto simp: res_iff dest!: keeps_lock split: if_splits)

lemmas steps_keep_lock = open_step_keeps_lock close_step_keeps_lock write_step_keeps_lock
  read_step_keeps_lock unlink_step_keeps_lock

lemma holds_result: "tfs_holds p \<Longrightarrow> tfs_result p = None"
  by (cases p) simp_all

lemma holds_first: "tfs_holds (first_point c)"
  by (cases c) simp_all

lemma tfs_lock_step:
  "tfs_micro (Lock c) s = Inr (q, t) \<longleftrightarrow>
     \<not> g_library_mutex s \<and> q = first_point c \<and> t = s\<lparr>g_library_mutex := True\<rparr>"
  by (auto simp: mutex_lock_def)

text \<open>A step at a point where the lock is held keeps it, unless it is the last.\<close>

lemma tfs_held_step:
  assumes "tfs_holds p" and "g_library_mutex s" and "tfs_micro p s = Inr (q, t)"
  shows "case tfs_result q of None \<Rightarrow> tfs_holds q \<and> g_library_mutex t | Some r \<Rightarrow> \<not> g_library_mutex t"
proof (cases p)
  case (Unlock r)
  then show ?thesis using assms(3) by (auto simp: mutex_unlock_def)
qed (use assms steps_keep_lock holds_result in \<open>fastforce+\<close>)

subsection \<open>The steps of a call are the call\<close>

lemma res_bind_assoc: "res_bind (res_bind r f) g = res_bind r (\<lambda>x. res_bind (f x) g)"
  by (cases r) simp_all

lemma res_bind_if: "res_bind (if b then q else r) f = (if b then res_bind q f else res_bind r f)"
  by simp

lemma res_bind_prod: "res_bind (case p of (x, y) \<Rightarrow> g x y) f = (case p of (x, y) \<Rightarrow> res_bind (g x y) f)"
  by (cases p) simp

lemma res_bind_cong: "r = r' \<Longrightarrow> (\<And>x. r' = Inr x \<Longrightarrow> f x = g x) \<Longrightarrow> res_bind r f = res_bind r' g"
  by (cases r') simp_all

lemma tfs_rest_step:
  "tfs_result p = None \<Longrightarrow> tfs_rest p s = res_bind (tfs_micro p s) (\<lambda>(q, t). tfs_rest q t)"
  by (subst tfs_rest.simps) (auto split: sum.splits)

lemma tfs_rest_unlock [simp]: "tfs_rest (Unlock r) s = Inr (r, s\<lparr>g_library_mutex := False\<rparr>)"
  by (simp add: tfs_rest.simps mutex_unlock_def)

lemma tfs_rest_at [simp]:
  "tfs_rest (At_open p1) s = res_bind (open_step p1 s) (\<lambda>(q, t). tfs_rest q t)"
  "tfs_rest (At_close p2) s = res_bind (close_step p2 s) (\<lambda>(q, t). tfs_rest q t)"
  "tfs_rest (At_write p3) s = res_bind (write_step p3 s) (\<lambda>(q, t). tfs_rest q t)"
  "tfs_rest (At_read p4) s = res_bind (read_step p4 s) (\<lambda>(q, t). tfs_rest q t)"
  "tfs_rest (At_unlink p5) s = res_bind (unlink_step p5 s) (\<lambda>(q, t). tfs_rest q t)"
  by (simp_all add: tfs_rest_step)

lemma tfs_rest_if: "tfs_rest (if b then p else q) s = (if b then tfs_rest p s else tfs_rest q s)"
  by simp

lemma tfs_rest_lock:
  "tfs_rest (Lock c) s =
     (if g_library_mutex s then Inl Deadlock else tfs_rest (first_point c) (s\<lparr>g_library_mutex := True\<rparr>))"
  by (simp add: tfs_rest_step mutex_lock_def)

lemma unlock_return_unlocks: "unlock_return s v = (v, s\<lparr>g_library_mutex := False\<rparr>)"
  by (simp add: unlock_return_def mutex_unlock_def)

lemma if_not: "(if \<not> b then x else y) = (if b then y else x)"
  by simp

lemmas rest_simps = tfs_rest_lock tfs_rest_if mutex_lock_def unlock_return_unlocks
  res_bind_assoc res_bind_if res_bind_prod case_prod_unfold if_not

lemma close_rest: "tfs_rest (Lock (Close z)) s = exec_call (Close z) s"
  by (simp add: tfs_close_def rest_simps cong: if_cong)

lemma unlink_rest: "tfs_rest (Lock (Unlink path)) s = exec_call (Unlink path) s"
  by (simp add: tfs_unlink_def rest_simps cong: if_cong)

text \<open>Freeing a block leaves the inode that \<open>tfs_open\<close> reads again as it is.\<close>

lemma free_keeps_inode: "data_block_free b s = Inr t \<Longrightarrow> load_inode t ip = load_inode s ip"
  by (auto simp: data_block_free_def load_inode_def res_iff split: option.splits)

lemma open_existing_rest:
  "tfs_rest (At_open (Open_inode mode inum)) s =
     res_bind (open_existing inum mode s) (\<lambda>(off, t). tfs_rest (At_open (Open_table inum off)) t)"
  by (simp add: open_existing_def rest_simps free_keeps_inode cong: if_cong res_bind_cong)

lemma open_rest: "tfs_rest (Lock (Open path mode)) s = exec_call (Open path mode) s"
  using open_existing_rest
  by (simp add: tfs_open_def rest_simps cong: if_cong del: open_step.simps(4))

text \<open>What \<open>tfs_write\<close> and \<open>tfs_read\<close> read again is as they left it.\<close>

lemma load_after_store:
  "store_bytes a bs s = Inr t \<Longrightarrow> load_inode t ip = load_inode s ip"
  "store_bytes a bs s = Inr t \<Longrightarrow> load_file t h = load_file s h"
  "store_file h f s = Inr t \<Longrightarrow> load_inode t ip = load_inode s ip"
  "store_file h f s = Inr t \<Longrightarrow> load_file t h = Inr f"
  "store_inode ip v s = Inr t \<Longrightarrow> load_file t h = load_file s h"
  "data_block_alloc s = Inr r \<Longrightarrow> load_file (snd r) h = load_file s h"
  "data_block_alloc s = Inr r \<Longrightarrow> load_inode (snd r) ip = load_inode s ip"
  by (auto simp: store_bytes_def store_file_def store_inode_def data_block_alloc_def load_inode_def
      load_file_def load_at_def res_iff split: option.splits)

lemma write_bytes_rest:
  assumes "load_file s z = Inr f"
  shows "tfs_rest (At_write (Write_block z buf n ip)) s =
     res_bind (write_bytes z ip buf n s) (\<lambda>t. Inr (Ret (sint n), t\<lparr>g_library_mutex := False\<rparr>))"
  using assms
  by (simp add: write_bytes_def rest_simps load_after_store Let_def cong: if_cong res_bind_cong)

lemma write_rest: "tfs_rest (Lock (Write z buf len)) s = exec_call (Write z buf len) s"
  using write_bytes_rest
  by (simp add: tfs_write_def rest_simps load_after_store Let_def cong: if_cong res_bind_cong
      del: write_step.simps(7))

lemma read_rest: "tfs_rest (Lock (Read z buf len)) s = exec_call (Read z buf len) s"
  by (simp add: tfs_read_def rest_simps Let_def cong: if_cong res_bind_cong)

lemma rest_lock_eq: "tfs_rest (Lock c) s = exec_call c s"
  using open_rest close_rest write_rest read_rest unlink_rest by (cases c) metis+

text \<open>C6: The steps of a call, made without interruption from the lock on, are the call: they
  fail where the function as a whole fails, with the same fault, and otherwise give its
  reply, the contents of the caller's buffer and the state.\<close>

theorem micro_realises_calls: "tfs_rest (Lock c) s = exec_call c s"
  by (rule rest_lock_eq)

subsection \<open>The operations are protected by the lock\<close>

interpretation tfs_lock:
  lock_protected tfs_micro Lock tfs_result tfs_holds g_library_mutex exec_call tfs_rest
proof
  show "\<not> tfs_holds (Lock c)" for c by simp
  show "tfs_micro (Lock c) s = Inr (q, t) \<Longrightarrow>
      \<not> g_library_mutex s \<and> g_library_mutex t \<and> tfs_holds q \<and> tfs_result q = None" for c s q t
    using holds_first holds_result by (auto simp only: tfs_lock_step) simp
  show "tfs_rest (Lock c) s = exec_call c s" for c s by (rule rest_lock_eq)
  show "tfs_rest p s = res_bind (tfs_micro p s) (\<lambda>(q, t).
      case tfs_result q of Some r \<Rightarrow> Inr (r, t) | None \<Rightarrow> tfs_rest q t)"
    if "p = Lock c \<or> tfs_holds p" for p c s
  proof -
    have "tfs_result p = None" using that holds_result by auto
    moreover have "tfs_rest q t = (case tfs_result q of Some r \<Rightarrow> Inr (r, t) | None \<Rightarrow> tfs_rest q t)" for q t
      by (cases "tfs_result q") (simp_all add: tfs_rest.simps)
    ultimately show ?thesis by (simp add: tfs_rest_step cong: res_bind_cong split: prod.splits)
  qed
qed (use tfs_held_step in \<open>fastforce+\<close>)

end
