(* ===== verification/TfsThreads.thy ===== *)
theory TfsThreads
  imports TfsProps TfsMicro
begin

text \<open>
  The file system called by several threads: what \<open>g_library_mutex\<close> of \<open>fs/operations.c\<close> is
  for. Each thread has a list of calls to make, and each call is the sequence of steps of
  \<open>TfsMicro\<close>, from the lock to the unlock. The steps of the threads interleave in any order on
  the shared static variables, which a thread reads afresh in each step; that nobody else has
  changed them meanwhile is proved, from the laws of \<open>Monitor\<close>. \<open>tfs_init\<close> and \<open>tfs_destroy\<close>
  take no lock and are not among the calls.
\<close>

type_synonym fs_machine = "(call, tfs_pc, reply, fs_state) mt_machine"

abbreviation fs_step :: "fs_machine \<Rightarrow> fs_machine \<Rightarrow> bool" where
  "fs_step \<equiv> mt_step tfs_micro Lock tfs_result"

abbreviation fs_reach :: "fs_machine \<Rightarrow> fs_machine \<Rightarrow> bool" where
  "fs_reach \<equiv> mt_reach tfs_micro Lock tfs_result"

abbreviation fs_start :: "call list list \<Rightarrow> fs_state \<Rightarrow> fs_machine" where
  "fs_start \<equiv> mt_start"

text \<open>The threads between their lock and their unlock.\<close>

abbreviation in_call :: "fs_machine \<Rightarrow> nat set" where
  "in_call \<equiv> inside tfs_holds"

subsection \<open>Calls that always return\<close>

text \<open>Calls that are allowed whatever the other threads have done: nothing is truncated or
  unlinked.\<close>

fun safe_call :: "call \<Rightarrow> bool" where
  "safe_call (Open path mode) \<longleftrightarrow> path_ok path \<and> \<not> has_flag mode TFS_O_TRUNC"
| "safe_call (Close z) \<longleftrightarrow> True"
| "safe_call (Write z buf len) \<longleftrightarrow> unat len \<le> length buf \<and> len < 2 ^ 63"
| "safe_call (Read z buf len) \<longleftrightarrow> unat len \<le> length buf"
| "safe_call (Unlink path) \<longleftrightarrow> False"

definition safe_progs :: "call list list \<Rightarrow> bool" where
  "safe_progs progs \<longleftrightarrow> (\<forall>cs \<in> set progs. \<forall>c \<in> set cs. safe_call c)"

lemma safe_call_ok: "safe_call c \<Longrightarrow> call_ok p c A"
  by (cases c) simp_all

lemma safe_allowed: "\<forall>c \<in> set cs. safe_call c \<Longrightarrow> allowed p cs A"
  by (induction cs arbitrary: A) (auto intro: safe_call_ok)

text \<open>The logged calls have refined the specification.\<close>

lemma run_refines_spec:
  assumes "fs_inv s0" and "\<forall>c \<in> set cs. safe_call c" and "run cs s0 = Inr (rs, s)"
  shows "fs_inv s \<and> fs_params s = fs_params s0 \<and> spec_run (fs_params s0) cs (absf s0) = (rs, absf s)"
  using tfs.run_refines [OF assms(1) safe_allowed [OF assms(2)]] assms(3) by auto

interpretation tfs_threads:
  lock_progress tfs_micro Lock tfs_result tfs_holds g_library_mutex exec_call tfs_rest
    fs_inv safe_call tfs_rank
proof
  show "\<exists>r t. exec_call c s = Inr (r, t) \<and> fs_inv t" if "fs_inv s" "safe_call c" for s c
    using tfs.step_law [OF that(1) safe_call_ok [OF that(2)]] by blast
qed (rule tfs_micro_rank)

lemma reach_inv:
  "\<not> g_library_mutex s0 \<Longrightarrow> fs_reach (fs_start progs s0) m \<Longrightarrow> tfs_lock.mt_inv progs s0 m"
  by (rule tfs_lock.mt_inv_reach [OF _ tfs_lock.mt_inv_start])

lemma never_stuck:
  assumes "tfs_lock.mt_inv progs s0 m" and "fs_inv s0" and "safe_progs progs"
  shows "(finished m \<longleftrightarrow> (\<forall>m'. \<not> fs_step m m')) \<and>
    (finished m \<longrightarrow> fs_inv (mc_state m) \<and> (\<forall>i < length progs. calls_by i m = progs ! i) \<and>
      spec_run (fs_params s0) (calls_of m) (absf s0) = (replies_of m, absf (mc_state m)))"
proof (intro conjI impI allI iffI)
  have safe: "\<forall>cs \<in> set progs. \<forall>c \<in> set cs. safe_call c" using assms(3) by (simp add: safe_progs_def)
  show "finished m" if "\<forall>m'. \<not> fs_step m m'"
    using tfs_threads.progress [OF assms(1,2) safe] that by blast
  show "\<not> fs_step m m'" if "finished m" for m' by (rule finished_no_step [OF that])
  assume fin: "finished m"
  have "in_order progs m" using assms(1) by (simp add: tfs_lock.mt_inv_def)
  note refines = run_refines_spec [OF assms(2) in_order_calls(1) [OF this safe]
      tfs_threads.finished_state(1) [OF assms(1) fin]]
  show "fs_inv (mc_state m)" using refines by simp
  show "spec_run (fs_params s0) (calls_of m) (absf s0) = (replies_of m, absf (mc_state m))"
    using refines by simp
  show "calls_by i m = progs ! i" if "i < length progs" for i
    by (rule tfs_threads.finished_state(2) [OF assms(1) fin that])
qed

subsection \<open>Properties\<close>

text \<open>C5: Threads that call the file system at the same time get what they would get one after the
  other, however their steps interleave: in every reachable state the calls that have
  returned, run in the order of their returns on the model of the code, give the same
  replies and, while no call is under way, the same static variables; and this order has the
  calls of each thread in the thread's order.\<close>

theorem threads_serializable:
  assumes "\<not> g_library_mutex s0" and "fs_reach (fs_start progs s0) m"
  shows "\<exists>s. run (calls_of m) s0 = Inr (replies_of m, s) \<and> (in_call m = {} \<longrightarrow> mc_state m = s) \<and>
           (\<forall>i < length progs. calls_by i m @ calls_left (mc_threads m ! i) = progs ! i)"
  by (rule tfs_lock.serializable [OF reach_inv [OF assms]])

definition two_threads :: "call list list" where
  "two_threads = [[Open path_f TFS_O_CREAT], [Close 0]]"

text \<open>A thread that makes its one call alone, in the steps the code takes.\<close>

lemma two_threads_step:
  "fs_reach (fs_start two_threads demo)
     \<lparr>mc_state = demo, mc_threads = [\<lparr>th_todo = [Open path_f TFS_O_CREAT], th_pc = None\<rparr>,
        \<lparr>th_todo = [], th_pc = None\<rparr>], mc_log = [(1, Close 0, Ret (- 1))]\<rparr>"
proof -
  let ?t = "\<lparr>th_todo = [Open path_f TFS_O_CREAT], th_pc = None\<rparr>"
  let ?l = "demo\<lparr>g_library_mutex := True\<rparr>"
  let ?m = "\<lambda>s p. \<lparr>mc_state = s, mc_threads = [?t, \<lparr>th_todo = [], th_pc = Some (Close 0, p)\<rparr>], mc_log = []\<rparr>"
  have free: "\<not> g_library_mutex demo" using demo_facts(1) by (simp add: fs_inv_def)
  have "sp_lookup (absf demo) 0 = None" by (simp add: demo_facts sp_lookup_def empty_afs_def)
  then have "bad_handle demo 0" by (simp add: sp_lookup_absf split: if_splits)
  note get = bad_handle_entry [OF demo_facts(1) this]
  have s1: "fs_step (fs_start two_threads demo) (?m demo (Lock (Close 0)))"
    using mt_step.invoke [of 1 "fs_start two_threads demo" "Close 0" "[]"]
    by (simp add: mt_start_def two_threads_def)
  have s2: "fs_step (?m demo (Lock (Close 0))) (?m ?l (At_close (Close_get 0)))"
    using mt_step.work [of 1 "?m demo (Lock (Close 0))" "Close 0" "Lock (Close 0)" tfs_micro
        "At_close (Close_get 0)" ?l tfs_result Lock] free
    by (simp add: set_pc_def mutex_lock_def)
  have s3: "fs_step (?m ?l (At_close (Close_get 0))) (?m ?l (Unlock (Ret (- 1))))"
    using mt_step.work [of 1 "?m ?l (At_close (Close_get 0))" "Close 0" "At_close (Close_get 0)" tfs_micro
        "Unlock (Ret (- 1))" ?l tfs_result Lock] get
    by (simp add: set_pc_def)
  have s4: "fs_step (?m ?l (Unlock (Ret (- 1)))) \<lparr>mc_state = demo, mc_threads = [?t,
      \<lparr>th_todo = [], th_pc = None\<rparr>], mc_log = [(1, Close 0, Ret (- 1))]\<rparr>"
    using mt_step.finish [of 1 "?m ?l (Unlock (Ret (- 1)))" "Close 0" "Unlock (Ret (- 1))" tfs_micro
        "Returned (Ret (- 1))" demo tfs_result "Ret (- 1)" Lock] free
    by (simp add: set_pc_def mutex_unlock_def)
  show ?thesis
    using mt_reach.step [OF mt_reach.step [OF mt_reach.step [OF mt_reach.step [OF mt_reach.start s1] s2] s3] s4] .
qed

theorem threads_serializable_witness: "run [Close 0] demo = Inr ([Ret (- 1)], demo)"
  using threads_serializable [OF _ two_threads_step] demo_facts(1)
  by (auto simp: fs_inv_def calls_of_def replies_of_def inside_def thread_at_def nth_Cons split: nat.splits)

text \<open>C16: Mutual exclusion: at most one thread is inside a call, the mutex is held exactly while
  one is, and that thread is on the way its call would take if it were alone, from the state
  that the last call to return left behind.\<close>

theorem threads_exclusion:
  assumes "\<not> g_library_mutex s0" and "fs_reach (fs_start progs s0) m"
  shows "card (in_call m) \<le> 1 \<and> (g_library_mutex (mc_state m) \<longleftrightarrow> in_call m \<noteq> {}) \<and>
         (\<forall>i < length (mc_threads m). \<forall>c p. th_pc (mc_threads m ! i) = Some (c, p) \<and> tfs_holds p \<longrightarrow>
            (\<exists>s. run (calls_of m) s0 = Inr (replies_of m, s) \<and> tfs_rest p (mc_state m) = exec_call c s))"
  using tfs_lock.exclusion [OF reach_inv [OF assms]] tfs_lock.on_its_way [OF reach_inv [OF assms]]
  by blast

theorem threads_exclusion_witness:
  "\<not> g_library_mutex (mc_state (fs_start two_threads demo))"
  using threads_exclusion [OF _ mt_reach.start, of demo two_threads] demo_facts(1)
  by (auto simp: fs_inv_def mt_start_def inside_def thread_at_def two_threads_def nth_Cons split: nat.splits)

text \<open>C17: Nothing blocks for ever: from every state that any number of threads reach, doing calls
  that truncate and unlink nothing, every run comes to an end after a bounded number of steps,
  and ends exactly when all threads are done; then every thread has made its calls, the file system
  satisfies its invariant, and the replies are those of the abstract file system for the
  calls in the order of their returns.\<close>

theorem threads_finish:
  assumes "fs_inv s0" and "safe_progs progs" and "fs_reach (fs_start progs s0) m"
  shows "(\<exists>N. \<forall>f n. f 0 = m \<and> (\<forall>j < n. fs_step (f j) (f (Suc j))) \<longrightarrow> n \<le> N) \<and>
         (\<exists>m'. fs_reach m m' \<and> finished m') \<and>
         (\<forall>m'. fs_reach m m' \<longrightarrow> (finished m' \<longleftrightarrow> (\<forall>m''. \<not> fs_step m' m'')) \<and>
           (finished m' \<longrightarrow> fs_inv (mc_state m') \<and> (\<forall>i < length progs. calls_by i m' = progs ! i) \<and>
             spec_run (fs_params s0) (calls_of m') (absf s0) = (replies_of m', absf (mc_state m'))))"
proof -
  have "\<not> g_library_mutex s0" using assms(1) by (simp add: fs_inv_def)
  note inv = reach_inv [OF this assms(3)]
  have safe: "\<forall>cs \<in> set progs. \<forall>c \<in> set cs. safe_call c" using assms(2) by (simp add: safe_progs_def)
  have 1: "\<exists>N. \<forall>f n. f 0 = m \<and> (\<forall>j < n. fs_step (f j) (f (Suc j))) \<longrightarrow> n \<le> N"
    using tfs_threads.steps_bounded by (intro exI [of _ "work_left Lock tfs_rank m"]) auto
  have 2: "\<exists>m'. fs_reach m m' \<and> finished m'"
    by (rule tfs_threads.can_finish [OF inv assms(1) safe])
  have 3: "(finished m' \<longleftrightarrow> (\<forall>m''. \<not> fs_step m' m'')) \<and>
      (finished m' \<longrightarrow> fs_inv (mc_state m') \<and> (\<forall>i < length progs. calls_by i m' = progs ! i) \<and>
        spec_run (fs_params s0) (calls_of m') (absf s0) = (replies_of m', absf (mc_state m')))"
    if "fs_reach m m'" for m'
    by (rule never_stuck [OF tfs_lock.mt_inv_reach [OF that inv] assms(1,2)])
  show ?thesis using 1 2 3 by simp
qed

theorem threads_finish_witness:
  "\<exists>m'. fs_reach (fs_start two_threads demo) m' \<and> finished m' \<and>
        calls_by 0 m' = [Open path_f TFS_O_CREAT] \<and> calls_by 1 m' = [Close 0]"
proof -
  have "safe_progs two_threads"
    by (simp add: safe_progs_def two_threads_def path_f_def has_flag_def TFS_O_CREAT_def TFS_O_TRUNC_def)
  note fin = threads_finish [OF demo_facts(1) this mt_reach.start]
  then obtain m' where m': "fs_reach (fs_start two_threads demo) m'" "finished m'" by blast
  with fin have "\<forall>i < length two_threads. calls_by i m' = two_threads ! i" by blast
  then show ?thesis using m' by (intro exI [of _ m']) (simp add: two_threads_def less_Suc_eq)
qed

text \<open>\<open>tfs_destroy\<close> does not take the lock: it clears the tables while a call is under way, and
  the thread inside the call then follows a null pointer.\<close>

theorem tfs_destroy_ignores_lock:
  "tfs_destroy (s\<lparr>g_library_mutex := b\<rparr>) = (0, (snd (tfs_destroy s))\<lparr>g_library_mutex := b\<rparr>) \<and>
   inode_table (snd (tfs_destroy s)) = None"
  by (simp add: tfs_destroy_def state_destroy_def)

theorem destroy_breaks_call:
  assumes "valid_file_handle s z"
  shows "tfs_micro (At_close (Close_remove z)) (snd (tfs_destroy s)) = Inl Null_deref"
  using assms
  by (simp add: tfs_destroy_def state_destroy_def remove_from_open_file_table_def valid_file_handle_def
      load_at_def)

end
