(* ===== verification/Protocol.thy ===== *)
theory Protocol
  imports CString
begin

text \<open>
  The messages the programs exchange over named pipes, \<open>utils/utility_funcs.h\<close> and the functions
  \<open>newRequest\<close> and \<open>send_request\<close> of \<open>utils/utility_funcs.c\<close>. A \<open>Request\<close> is one C structure,
  written to and read from a pipe as the bytes it has in memory, so the model has both the
  structure (a record) and its layout in memory (a byte list).
\<close>

subsection \<open>Constants and types\<close>

definition MAX_PIPE_NAME :: nat where "MAX_PIPE_NAME = 257"
definition MAX_BOX_NAME :: nat where "MAX_BOX_NAME = 33"
definition MAX_MESSAGE :: nat where "MAX_MESSAGE = 1025"

datatype codes = R_PUB | R_SUB | C_BOX | R_C_BOX | R_BOX | R_R_BOX | L_BOX | R_L_BOX | M_PUB | M_SUB

fun code_byte :: "codes \<Rightarrow> byte" where
  "code_byte R_PUB = 1"
| "code_byte R_SUB = 2"
| "code_byte C_BOX = 3"
| "code_byte R_C_BOX = 4"
| "code_byte R_BOX = 5"
| "code_byte R_R_BOX = 6"
| "code_byte L_BOX = 7"
| "code_byte R_L_BOX = 8"
| "code_byte M_PUB = 9"
| "code_byte M_SUB = 10"

text \<open>
  The character arrays have their C lengths; \<open>return_code\<close> is an \<open>int32_t\<close>, and \<open>boxa\<close> the
  numerical value of the pointer (0 for \<open>NULL\<close>).
\<close>

record request =
  rq_code :: byte
  rq_session_pipe :: "byte list"
  rq_box_name :: "byte list"
  rq_return_code :: int
  rq_error_message :: "byte list"
  rq_boxa :: size_t

definition request_ok :: "request \<Rightarrow> bool" where
  "request_ok r \<longleftrightarrow> length (rq_session_pipe r) = MAX_PIPE_NAME \<and> length (rq_box_name r) = MAX_BOX_NAME \<and>
     - (2 ^ 31) \<le> rq_return_code r \<and> rq_return_code r < 2 ^ 31 \<and>
     length (rq_error_message r) = MAX_MESSAGE"

subsection \<open>The constructor\<close>

text \<open>
  \<open>strncpy (field, src, max - 1); field[max - 1] = 0\<close>, where reading from a null \<open>src\<close> ends the
  program.
\<close>

definition copy_field :: "byte list option \<Rightarrow> nat \<Rightarrow> byte list res" where
  "copy_field src n =
     (case src of
        None \<Rightarrow> Inl Null_deref
      | Some m \<Rightarrow> res_bind (c_strncpy m (n - 1)) (\<lambda>bs. Inr (bs @ [0])))"

definition newRequest ::
  "byte \<Rightarrow> byte list option \<Rightarrow> byte list option \<Rightarrow> int \<Rightarrow> byte list option \<Rightarrow> request res" where
  "newRequest code session_pipe_name box_name return_code error_message =
     res_bind (copy_field session_pipe_name MAX_PIPE_NAME) (\<lambda>sp.
     res_bind (copy_field box_name MAX_BOX_NAME) (\<lambda>bn.
     res_bind (copy_field error_message MAX_MESSAGE) (\<lambda>em.
       Inr \<lparr>rq_code = code, rq_session_pipe = sp, rq_box_name = bn, rq_return_code = return_code,
            rq_error_message = em, rq_boxa = 0\<rparr>)))"

lemma c_strncpy_field:
  "terminated m \<Longrightarrow> c_strncpy m n = Inr (take n (cstr m) @ replicate (n - length (cstr m)) 0)"
  by (cases "length (cstr m) < n") (simp_all add: c_strncpy_terminated c_strncpy_long)

lemma copy_field_eq:
  assumes "terminated m" and "0 < n"
  shows "\<exists>f. copy_field (Some m) n = Inr f \<and> length f = n \<and> cstr f = take (n - 1) (cstr m)"
proof -
  let ?f = "take (n - 1) (cstr m) @ replicate (n - 1 - length (cstr m)) 0 @ [0]"
  have "cstr ?f = take (n - 1) (cstr m)"
  proof -
    have "0 \<notin> set (take (n - 1) (cstr m))" using zero_notin_cstr by (metis in_set_takeD)
    then show ?thesis by (simp add: replicate_append_same)
  qed
  moreover have "length ?f = n" using assms(2) by auto
  ultimately show ?thesis using assms by (simp add: copy_field_def c_strncpy_field)
qed

lemma copy_field_None [simp]: "copy_field None n = Inl Null_deref"
  by (simp add: copy_field_def)

lemma newRequest_eq:
  assumes "terminated sp" and "terminated bn" and "terminated em"
    and "- (2 ^ 31) \<le> rc" and "rc < 2 ^ 31"
  shows "\<exists>r. newRequest c (Some sp) (Some bn) rc (Some em) = Inr r \<and> request_ok r \<and>
           rq_code r = c \<and> rq_return_code r = rc \<and> rq_boxa r = 0 \<and>
           cstr (rq_session_pipe r) = take 256 (cstr sp) \<and>
           cstr (rq_box_name r) = take 32 (cstr bn) \<and>
           cstr (rq_error_message r) = take 1024 (cstr em)"
proof -
  obtain a b d where
    "copy_field (Some sp) MAX_PIPE_NAME = Inr a" "length a = MAX_PIPE_NAME" "cstr a = take 256 (cstr sp)"
    "copy_field (Some bn) MAX_BOX_NAME = Inr b" "length b = MAX_BOX_NAME" "cstr b = take 32 (cstr bn)"
    "copy_field (Some em) MAX_MESSAGE = Inr d" "length d = MAX_MESSAGE" "cstr d = take 1024 (cstr em)"
    using copy_field_eq [OF assms(1), of MAX_PIPE_NAME] copy_field_eq [OF assms(2), of MAX_BOX_NAME]
      copy_field_eq [OF assms(3), of MAX_MESSAGE]
    by (auto simp: MAX_PIPE_NAME_def MAX_BOX_NAME_def MAX_MESSAGE_def)
  then show ?thesis using assms(4,5) by (simp add: newRequest_def request_ok_def)
qed

text \<open>A null pointer for any of the three strings ends the program.\<close>

lemma newRequest_null:
  assumes "sp = None \<or> bn = None \<or> em = None"
  shows "\<exists>e. newRequest c sp bn rc em = Inl e"
  using assms
  by (cases "copy_field sp MAX_PIPE_NAME"; cases "copy_field bn MAX_BOX_NAME") (auto simp: newRequest_def)

subsection \<open>The layout\<close>

text \<open>
  Offsets and padding of the x86-64 ABI: the code at 0, the session pipe at 1, the box name at
  258, one byte of padding, the return code at 292, the message at 296, seven bytes of padding,
  the pointer at 1328; 1336 bytes in all. The structure starts zeroed, so padding is zero.
\<close>

definition sizeof_request :: nat where "sizeof_request = 1336"

definition word_bytes :: "size_t \<Rightarrow> byte list" where
  "word_bytes w = map (\<lambda>i. word_of_int (uint w div 256 ^ i)) [0..<8]"

definition bytes_word :: "byte list \<Rightarrow> size_t" where
  "bytes_word bs = word_of_int (\<Sum>i \<in> {0..<8}. uint (bs ! i) * 256 ^ i)"

definition request_bytes :: "request \<Rightarrow> byte list" where
  "request_bytes r = [rq_code r] @ rq_session_pipe r @ rq_box_name r @ [0] @
     int_bytes (rq_return_code r) @ rq_error_message r @ replicate 7 0 @ word_bytes (rq_boxa r)"

definition bytes_request :: "byte list \<Rightarrow> request" where
  "bytes_request bs = \<lparr>
     rq_code = bs ! 0,
     rq_session_pipe = bytes_at 1 257 bs,
     rq_box_name = bytes_at 258 33 bs,
     rq_return_code = bytes_int (bytes_at 292 4 bs),
     rq_error_message = bytes_at 296 1025 bs,
     rq_boxa = bytes_word (bytes_at 1328 8 bs)\<rparr>"

text \<open>What \<open>read (fd, &request, sizeof (request))\<close> leaves when it delivers \<open>bs\<close>.\<close>

definition read_request :: "byte list \<Rightarrow> request \<Rightarrow> request" where
  "read_request bs old = bytes_request (overwrite 0 bs (request_bytes old))"

lemma base256_sum: "(\<Sum>i \<in> {0..<k}. (x div 256 ^ i mod 256) * 256 ^ i) = x mod (256 ^ k :: int)"
proof (induction k)
  case (Suc k)
  have "x mod 256 ^ Suc k = 256 ^ k * (x div 256 ^ k mod 256) + x mod 256 ^ k"
    using zmod_zmult2_eq [of 256 x "256 ^ k"] by (simp add: mult.commute)
  then show ?case using Suc by (simp add: mult.commute)
qed simp

lemma bytes_word_word_bytes: "bytes_word (word_bytes w) = w"
proof -
  have "(\<Sum>i \<in> {0..<8}. uint (word_bytes w ! i) * 256 ^ i) =
      (\<Sum>i \<in> {0..<8}. (uint w div 256 ^ i mod 256) * 256 ^ i)"
    by (rule sum.cong) (simp_all add: word_bytes_def uint_word_of_int)
  also have "\<dots> = uint w mod 256 ^ 8" by (rule base256_sum)
  also have "\<dots> = uint w" using uint_bounded [of w] by simp
  finally show ?thesis by (simp add: bytes_word_def)
qed

lemma length_word_bytes [simp]: "length (word_bytes w) = 8"
  by (simp add: word_bytes_def)

lemma bytes_at_skip: "length xs \<le> off \<Longrightarrow> bytes_at off n (xs @ ys) = bytes_at (off - length xs) n ys"
  by (simp add: bytes_at_def)

lemma bytes_at_here: "n = length xs \<Longrightarrow> bytes_at 0 n (xs @ ys) = xs" "n = length xs \<Longrightarrow> bytes_at 0 n xs = xs"
  by (simp_all add: bytes_at_def)

lemma bytes_at_Cons: "0 < off \<Longrightarrow> bytes_at off n (x # xs) = bytes_at (off - 1) n xs"
  by (cases off) (simp_all add: bytes_at_def)

lemmas field_lengths = MAX_PIPE_NAME_def MAX_BOX_NAME_def MAX_MESSAGE_def

lemma length_request_bytes: "request_ok r \<Longrightarrow> length (request_bytes r) = sizeof_request"
  by (simp add: request_bytes_def request_ok_def field_lengths sizeof_request_def)

lemma request_round_trip: "request_ok r \<Longrightarrow> bytes_request (request_bytes r) = r"
  by (simp add: bytes_request_def request_bytes_def request_ok_def field_lengths bytes_at_skip bytes_at_Cons
      bytes_at_here bytes_int_int_bytes bytes_word_word_bytes)

lemma read_whole: "request_ok r \<Longrightarrow> request_ok old \<Longrightarrow> read_request (request_bytes r) old = r"
  by (simp add: read_request_def overwrite_def length_request_bytes request_round_trip)

text \<open>A read that delivers no more than the bytes before the message leaves the old message.\<close>

lemma read_short:
  assumes "request_ok old" and "length bs \<le> 296"
  shows "rq_error_message (read_request bs old) = rq_error_message old"
proof -
  have "bytes_at 296 1025 (overwrite 0 bs (request_bytes old)) = bytes_at 296 1025 (request_bytes old)"
    using assms length_request_bytes [of old]
    by (intro bytes_at_overwrite_disjoint) (simp_all add: sizeof_request_def)
  then show ?thesis
    using arg_cong [OF request_round_trip [OF assms(1)], of rq_error_message]
    by (simp add: read_request_def bytes_request_def)
qed

subsection \<open>Sending a request\<close>

text \<open>
  The names a client sends are its command line arguments, so the pointers point into the one
  block of memory that holds the argument strings one after the other, followed by the
  environment: \<open>mem\<close>, and \<open>p\<close> an offset in it (\<open>None\<close> for \<open>NULL\<close>, which is \<open>argv[argc]\<close>).
  \<open>backfill\<close> is the block that zeroes the rest of a name up to its maximal length.
\<close>

definition backfill :: "nat option \<Rightarrow> nat \<Rightarrow> byte list \<Rightarrow> byte list res" where
  "backfill p n mem =
     (case p of
        None \<Rightarrow> Inl Null_deref
      | Some a \<Rightarrow>
          res_bind (c_strlen (drop a mem)) (\<lambda>len.
          if len < n then
            res_bind (mem_store (Some mem) (a + len) (replicate (n - len) 0)) (\<lambda>m.
              Inr (case m of Some d \<Rightarrow> d | None \<Rightarrow> mem))
          else Inr mem))"

text \<open>\<open>write_ret\<close> is what \<open>write\<close> returns. The result is what was written, and the memory.\<close>

definition send_request ::
  "byte \<Rightarrow> nat option \<Rightarrow> nat option \<Rightarrow> int \<Rightarrow> byte list \<Rightarrow> (byte list \<times> byte list) res" where
  "send_request code session_pipe box_name write_ret mem =
     res_bind (backfill session_pipe MAX_PIPE_NAME mem) (\<lambda>mem.
     res_bind (backfill box_name MAX_BOX_NAME mem) (\<lambda>mem.
     res_bind (newRequest code (map_option (\<lambda>a. drop a mem) session_pipe)
                 (map_option (\<lambda>a. drop a mem) box_name) 0 None) (\<lambda>request.
     let request = request\<lparr>rq_error_message := replicate MAX_MESSAGE 0\<rparr> in
     if write_ret < 0 then Inl (Exit_failure ''Failed to send request to server.'')
     else Inr (request_bytes request, mem))))"

lemma send_request_fails: "\<exists>e. send_request code sp bn wr mem = Inl e"
proof (cases "send_request code sp bn wr mem")
  case (Inr x)
  then obtain q q' r where "newRequest code q q' 0 None = Inr r"
    by (auto simp: send_request_def res_iff)
  then show ?thesis using newRequest_null [of q q' None code 0] by simp
qed simp

lemma backfill_erases:
  assumes "mem = pre @ s @ [0] @ mid @ b @ [0] @ rest" and "0 \<notin> set s"
    and "length s + 1 + length mid < n" and "length pre + n \<le> length mem"
  shows "\<exists>mem'. backfill (Some (length pre)) n mem = Inr mem' \<and> length mem' = length mem \<and>
           cstr (drop (length pre) mem') = s \<and>
           cstr (drop (length pre + length s + 1 + length mid) mem') = []"
proof -
  let ?len = "length s" and ?a = "length pre"
  let ?z = "replicate (n - ?len) (0::byte)"
  let ?m = "overwrite (?a + ?len) ?z mem"
  have d: "drop ?a mem = s @ 0 # mid @ b @ 0 # rest" using assms(1) by simp
  have len: "c_strlen (drop ?a mem) = Inr ?len"
    using assms(2) by (simp add: d c_strlen_terminated)
  have fit: "?a + ?len + length ?z \<le> length mem" using assms(3,4) by simp
  have m: "?m = pre @ s @ ?z @ drop (?a + n) mem"
    using assms(1,3) by (simp add: overwrite_def)
  have z: "?z = 0 # replicate (n - ?len - 1) 0" using assms(3) by (cases "n - ?len") simp_all
  have "cstr (drop ?a ?m) = s" unfolding m using assms(2) by (simp add: z)
  moreover have "cstr (drop (?a + ?len + 1 + length mid) ?m) = []"
  proof -
    have "n - ?len - (1 + length mid) = Suc (n - ?len - (2 + length mid))" using assms(3) by simp
    then show ?thesis unfolding m by simp
  qed
  ultimately show ?thesis
    using len fit assms(3) by (intro exI [of _ ?m]) (simp add: backfill_def)
qed

subsection \<open>Properties\<close>

text \<open>C35: \<open>newRequest\<close> on three strings returns a structure whose arrays have their declared
  lengths and always hold terminated strings: the given ones, cut to 256, 32 and 1024
  characters.\<close>

theorem new_request_fields:
  assumes "terminated sp" and "terminated bn" and "terminated em"
    and "- (2 ^ 31) \<le> rc" and "rc < 2 ^ 31"
  shows "\<exists>r. newRequest c (Some sp) (Some bn) rc (Some em) = Inr r \<and> request_ok r \<and>
           rq_code r = c \<and> rq_return_code r = rc \<and> rq_boxa r = 0 \<and>
           cstr (rq_session_pipe r) = take 256 (cstr sp) \<and>
           cstr (rq_box_name r) = take 32 (cstr bn) \<and>
           cstr (rq_error_message r) = take 1024 (cstr em)"
  by (rule newRequest_eq [OF assms])

theorem new_request_fields_witness:
  "\<exists>r. newRequest (code_byte R_PUB) (Some [47, 112, 0, 9]) (Some (replicate 40 98 @ [0])) (- 1) (Some [0]) = Inr r \<and>
       request_ok r \<and> cstr (rq_session_pipe r) = [47, 112] \<and> cstr (rq_box_name r) = replicate 32 98"
proof -
  have "cstr (replicate 40 98 @ [0 :: byte]) = replicate 40 98"
    by (rule cstr_append_zero) simp
  then show ?thesis
    using new_request_fields [of "[47, 112, 0, 9]" "replicate 40 98 @ [0]" "[0]" "- 1" "code_byte R_PUB"] by auto
qed

text \<open>A null pointer for the pipe name, the box name or the message ends the program in
  \<open>newRequest\<close>; no request is built. (Every call of the broker and of the clients passes one.)\<close>

theorem new_request_null:
  assumes "sp = None \<or> bn = None \<or> em = None"
  shows "\<exists>e. newRequest c sp bn rc em = Inl e"
  by (rule newRequest_null [OF assms])

theorem new_request_null_witness: "\<exists>e. newRequest (code_byte M_SUB) None None 0 (Some [104, 105, 0]) = Inl e"
  using new_request_null [of None None "Some [104, 105, 0]"] by simp


definition sample_request :: "codes \<Rightarrow> byte \<Rightarrow> int \<Rightarrow> request" where
  "sample_request c b rc = \<lparr>rq_code = code_byte c, rq_session_pipe = 47 # replicate 256 0,
     rq_box_name = b # replicate 32 0, rq_return_code = rc,
     rq_error_message = b # replicate 1024 0, rq_boxa = 4096\<rparr>"

lemma sample_request_ok: "- (2 ^ 31) \<le> rc \<Longrightarrow> rc < 2 ^ 31 \<Longrightarrow> request_ok (sample_request c b rc)"
  by (simp add: sample_request_def request_ok_def field_lengths)


text \<open>The publisher writes only as many bytes of the structure as its message has characters.
  Unless that is more than 296, the message, which comes last, is not among them: the broker's
  structure keeps the message it had.\<close>

theorem short_write_loses_message:
  assumes "request_ok r" and "request_ok old" and "n \<le> 296"
  shows "rq_error_message (read_request (take n (request_bytes r)) old) = rq_error_message old"
  using assms by (intro read_short) simp_all

theorem short_write_loses_message_witness:
  "rq_error_message (read_request (take 100 (request_bytes (sample_request M_PUB 65 0))) (sample_request R_PUB 0 0)) =
     0 # replicate 1024 0"
  using short_write_loses_message [OF sample_request_ok [of 0 M_PUB 65] sample_request_ok [of 0 R_PUB 0], of 100]
  by (simp add: sample_request_def)

text \<open>\<open>send_request\<close> never returns and never writes a request, whatever the memory, the
  pointers and the pipe are: it passes \<open>NULL\<close> as the message.\<close>

theorem send_request_never_returns: "\<exists>e. send_request code sp bn wr mem = Inl e"
  by (rule send_request_fails)

text \<open>C38: Filling up the session pipe name with zeros, in the block of memory where the command
  line arguments stand one after the other, erases the arguments behind it: the box name that
  followed is the empty string afterwards.\<close>

theorem backfill_erases_box_name:
  assumes "mem = pre @ s @ [0] @ mid @ b @ [0] @ rest" and "0 \<notin> set s"
    and "length s + 1 + length mid < 257" and "length pre + 257 \<le> length mem"
  shows "\<exists>mem'. backfill (Some (length pre)) MAX_PIPE_NAME mem = Inr mem' \<and>
           cstr (drop (length pre) mem') = s \<and>
           cstr (drop (length pre + length s + 1 + length mid) mem') = []"
  using backfill_erases [of mem pre s mid b rest MAX_PIPE_NAME] assms by (auto simp: MAX_PIPE_NAME_def)

text \<open>The memory of \<open>pub r p /b\<close>: the session pipe name at 6, the box name at 8.\<close>

definition pub_args :: "byte list" where
  "pub_args = [112, 117, 98, 0, 114, 0, 112, 0, 47, 98, 0] @ replicate 300 69"

theorem backfill_erases_box_name_witness:
  "\<exists>mem'. cstr (drop 8 pub_args) = [47, 98] \<and> backfill (Some 6) MAX_PIPE_NAME pub_args = Inr mem' \<and>
          cstr (drop 8 mem') = []"
proof -
  let ?pre = "[112, 117, 98, 0, 114, 0] :: byte list"
  have at: "length ?pre = 6" "6 + length [112 :: byte] + 1 + length ([] :: byte list) = 8" by simp_all
  have "pub_args = ?pre @ [112] @ [0] @ [] @ [47, 98] @ [0] @ replicate 300 69" by (simp add: pub_args_def)
  from backfill_erases_box_name [OF this] obtain mem' where
    "backfill (Some 6) MAX_PIPE_NAME pub_args = Inr mem'" "cstr (drop 8 mem') = []"
    unfolding at by (auto simp: pub_args_def)
  moreover have "cstr (drop 8 pub_args) = [47, 98]" by (simp add: pub_args_def)
  ultimately show ?thesis by blast
qed

end
