(* ===== verification/BoxList.thy ===== *)
theory BoxList
  imports CString
begin

text \<open>
  The linked list of message boxes of \<open>utils/utility_funcs.c\<close>, over an explicit store: nodes by
  address, and the variables of type \<open>box\<close> that a \<open>box *\<close> can point to. The loops of the code
  follow \<open>next\<close> pointers, so they are partial functions: \<open>None\<close> means that the loop never ends.
\<close>

subsection \<open>The store\<close>

definition BOX_NAME_LEN :: nat where "BOX_NAME_LEN = 33"

record box_node =
  b_name :: "byte list"
  b_last :: byte
  b_size :: size_t
  b_publishers :: size_t
  b_subscribers :: size_t
  b_next :: "nat option"

type_synonym box = "nat option"

record box_store =
  nodes :: "nat \<rightharpoonup> box_node"
  cells :: "nat \<rightharpoonup> box"

definition load_node :: "box_store \<Rightarrow> box \<Rightarrow> box_node res" where
  "load_node st p =
     (case p of None \<Rightarrow> Inl Null_deref
      | Some a \<Rightarrow> (case nodes st a of None \<Rightarrow> Inl Out_of_bounds | Some n \<Rightarrow> Inr n))"

definition store_node :: "box \<Rightarrow> box_node \<Rightarrow> box_store \<Rightarrow> box_store res" where
  "store_node p n st =
     (case p of None \<Rightarrow> Inl Null_deref
      | Some a \<Rightarrow> (case nodes st a of None \<Rightarrow> Inl Out_of_bounds
                  | Some _ \<Rightarrow> Inr (st\<lparr>nodes := (nodes st)(a \<mapsto> n)\<rparr>)))"

text \<open>A \<open>box *\<close> is the address of a variable that holds a \<open>box\<close>.\<close>

definition load_cell :: "box_store \<Rightarrow> nat option \<Rightarrow> box res" where
  "load_cell st p =
     (case p of None \<Rightarrow> Inl Null_deref
      | Some c \<Rightarrow> (case cells st c of None \<Rightarrow> Inl Out_of_bounds | Some b \<Rightarrow> Inr b))"

definition store_cell :: "nat option \<Rightarrow> box \<Rightarrow> box_store \<Rightarrow> box_store res" where
  "store_cell p b st =
     (case p of None \<Rightarrow> Inl Null_deref
      | Some c \<Rightarrow> (case cells st c of None \<Rightarrow> Inl Out_of_bounds
                  | Some _ \<Rightarrow> Inr (st\<lparr>cells := (cells st)(c \<mapsto> b)\<rparr>)))"

subsection \<open>The functions\<close>

text \<open>
  \<open>fresh\<close> is what \<open>malloc\<close> returns and \<open>junk\<close> what the memory held; the result of \<open>malloc\<close> is
  used without a test. \<open>strcpy\<close> must fit the 33 bytes of the name.
\<close>

definition newBox_b ::
  "nat option \<Rightarrow> box_node \<Rightarrow> byte list \<Rightarrow> byte \<Rightarrow> size_t \<Rightarrow> size_t \<Rightarrow> size_t \<Rightarrow> box_store \<Rightarrow>
     (box \<times> box_store) res" where
  "newBox_b fresh junk name is_last box_size n_pubs n_subs st =
     (case fresh of
        None \<Rightarrow> Inl Null_deref
      | Some a \<Rightarrow>
          res_bind (c_strcpy name) (\<lambda>bs.
          if length bs > BOX_NAME_LEN then Inl Out_of_bounds
          else Inr (Some a, st\<lparr>nodes := (nodes st)(a \<mapsto>
                 \<lparr>b_name = overwrite 0 bs (b_name junk), b_last = is_last, b_size = box_size,
                  b_publishers = n_pubs, b_subscribers = n_subs, b_next = None\<rparr>)\<rparr>)))"

text \<open>
  One test of the loop of \<open>insertion_sort\<close>: go on with the next node (\<open>Inl\<close>) or stop at this
  one (\<open>Inr\<close>).
\<close>

definition locate_step :: "box_store \<Rightarrow> byte list \<Rightarrow> box \<Rightarrow> (box + box) res" where
  "locate_step st name current =
     res_bind (load_node st current) (\<lambda>n.
     if b_next n = None then Inr (Inr current)
     else
       res_bind (load_node st (b_next n)) (\<lambda>n'.
       res_bind (c_strcmp (b_name n') name) (\<lambda>r.
         Inr (if r < 0 then Inl (b_next n) else Inr current))))"

partial_function (option) locate :: "box_store \<Rightarrow> byte list \<Rightarrow> box \<Rightarrow> box res option" where
  "locate st name current =
     (case locate_step st name current of
        Inl e \<Rightarrow> Some (Inl e)
      | Inr d \<Rightarrow> (case d of Inl c \<Rightarrow> locate st name c | Inr c \<Rightarrow> Some (Inr c)))"

definition insert_after :: "box \<Rightarrow> box \<Rightarrow> box_store \<Rightarrow> box_store res" where
  "insert_after current new st =
     res_bind (load_node st current) (\<lambda>n.
     res_bind (load_node st new) (\<lambda>nn.
     res_bind (store_node new (nn\<lparr>b_next := b_next n\<rparr>) st) (\<lambda>st.
     res_bind (load_node st current) (\<lambda>n.
       store_node current (n\<lparr>b_next := new\<rparr>) st))))"

text \<open>The condition of the first \<open>if\<close>: the list is empty or starts at or behind the new name.\<close>

definition goes_first :: "box_store \<Rightarrow> box \<Rightarrow> box \<Rightarrow> bool res" where
  "goes_first st first new =
     (if first = None then Inr True
      else
        res_bind (load_node st first) (\<lambda>n.
        res_bind (load_node st new) (\<lambda>nn.
        res_bind (c_strcmp (b_name n) (b_name nn)) (\<lambda>r. Inr (r \<ge> 0)))))"

definition insertion_sort :: "nat option \<Rightarrow> box \<Rightarrow> box_store \<Rightarrow> box_store res option" where
  "insertion_sort head new st =
     (case res_bind (load_cell st head) (\<lambda>first. res_bind (goes_first st first new) (\<lambda>b. Inr (first, b))) of
        Inl e \<Rightarrow> Some (Inl e)
      | Inr (first, b) \<Rightarrow>
          if b then
            Some (res_bind (load_node st new) (\<lambda>nn.
                  res_bind (store_node new (nn\<lparr>b_next := first\<rparr>) st) (\<lambda>st. store_cell head new st)))
          else
            (case load_node st new of
               Inl e \<Rightarrow> Some (Inl e)
             | Inr nn \<Rightarrow>
                 map_option (\<lambda>r. res_bind r (\<lambda>current. insert_after current new st))
                   (locate st (b_name nn) first)))"

text \<open>\<open>find_box\<close>: the loop stops at the first node for which \<open>strcmp\<close> is not zero.\<close>

definition find_step :: "box_store \<Rightarrow> byte list \<Rightarrow> box \<Rightarrow> (box + box) res" where
  "find_step st name aux =
     (if aux = None then Inr (Inr None)
      else
        res_bind (load_node st aux) (\<lambda>n.
        res_bind (c_strcmp (b_name n) name) (\<lambda>r.
          Inr (if r \<noteq> 0 then Inr aux else Inl (b_next n)))))"

partial_function (option) find_loop :: "box_store \<Rightarrow> byte list \<Rightarrow> box \<Rightarrow> box res option" where
  "find_loop st name aux =
     (case find_step st name aux of
        Inl e \<Rightarrow> Some (Inl e)
      | Inr d \<Rightarrow> (case d of Inl c \<Rightarrow> find_loop st name c | Inr c \<Rightarrow> Some (Inr c)))"

definition find_box :: "nat option \<Rightarrow> byte list \<Rightarrow> box_store \<Rightarrow> box res option" where
  "find_box head name st =
     (if head = None then Some (Inr None)
      else (case load_cell st head of Inl e \<Rightarrow> Some (Inl e) | Inr aux \<Rightarrow> find_loop st name aux))"

text \<open>
  \<open>remove_box\<close>: the first node is removed through the variable; for any other the loop looks at
  the second node again and again, since \<open>aux\<close> is never moved.
\<close>

definition remove_step :: "box_store \<Rightarrow> byte list \<Rightarrow> box \<Rightarrow> box_store option res" where
  "remove_step st name aux =
     res_bind (load_node st aux) (\<lambda>n.
     res_bind (load_node st (b_next n)) (\<lambda>n'.
     res_bind (c_strcmp (b_name n') name) (\<lambda>r.
     if r = 0 then
       res_bind (store_node aux (n\<lparr>b_next := b_next n'\<rparr>) st) (\<lambda>st. Inr (Some st))
     else Inr None)))"

partial_function (option) remove_loop ::
    "box_store \<Rightarrow> byte list \<Rightarrow> box \<Rightarrow> (bool \<times> box_store) res option" where
  "remove_loop st name aux =
     (if aux = None then Some (Inr (False, st))
      else
        (case remove_step st name aux of
           Inl e \<Rightarrow> Some (Inl e)
         | Inr d \<Rightarrow> (case d of None \<Rightarrow> remove_loop st name aux | Some st \<Rightarrow> Some (Inr (True, st)))))"

definition remove_box :: "nat option \<Rightarrow> byte list \<Rightarrow> box_store \<Rightarrow> (bool \<times> box_store) res option" where
  "remove_box head name st =
     (case res_bind (load_cell st head) (\<lambda>aux.
           res_bind (load_node st aux) (\<lambda>n.
           res_bind (c_strcmp (b_name n) name) (\<lambda>r. Inr (aux, b_next n, r)))) of
        Inl e \<Rightarrow> Some (Inl e)
      | Inr (aux, next, r) \<Rightarrow>
          if r = 0 then Some (res_bind (store_cell head next st) (\<lambda>st. Inr (True, st)))
          else remove_loop st name aux)"

subsection \<open>Lists in the store\<close>

text \<open>\<open>path f p as\<close>: following \<open>next\<close> from \<open>p\<close> visits the addresses \<open>as\<close> and ends in \<open>NULL\<close>.\<close>

fun path :: "(nat \<rightharpoonup> box_node) \<Rightarrow> box \<Rightarrow> nat list \<Rightarrow> bool" where
  "path f p [] \<longleftrightarrow> p = None"
| "path f p (a # as) \<longleftrightarrow> p = Some a \<and>
     (case f a of None \<Rightarrow> False | Some n \<Rightarrow> path f (b_next n) as)"

definition name_of_box :: "box_store \<Rightarrow> nat \<Rightarrow> byte list" where
  "name_of_box st a = (case nodes st a of None \<Rightarrow> [] | Some n \<Rightarrow> cstr (b_name n))"

definition named_boxes :: "box_store \<Rightarrow> nat list \<Rightarrow> bool" where
  "named_boxes st as \<longleftrightarrow>
     (\<forall>a \<in> set as. case nodes st a of None \<Rightarrow> False | Some n \<Rightarrow> terminated (b_name n))"

text \<open>The variable \<open>c\<close> holds the list of boxes \<open>as\<close>.\<close>

definition box_list :: "box_store \<Rightarrow> nat \<Rightarrow> nat list \<Rightarrow> bool" where
  "box_list st c as \<longleftrightarrow> distinct as \<and> named_boxes st as \<and>
     (case cells st c of None \<Rightarrow> False | Some p \<Rightarrow> path (nodes st) p as)"

definition sorted_boxes :: "box_store \<Rightarrow> nat list \<Rightarrow> bool" where
  "sorted_boxes st as \<longleftrightarrow> sorted (map (name_of_box st) as)"

lemma path_frame: "(\<And>a. a \<in> set as \<Longrightarrow> f a = g a) \<Longrightarrow> path f p as = path g p as"
  by (induction as arbitrary: p) (auto split: option.splits)

lemma path_update_other [simp]: "a \<notin> set as \<Longrightarrow> path (f(a := n)) p as = path f p as"
  by (rule path_frame) auto

text \<open>Inserting a node behind a node of the list.\<close>

lemma path_insert:
  assumes "path f p (xs @ a # ys)" and "distinct (xs @ a # ys)" and "new \<notin> set (xs @ a # ys)"
    and "f a = Some n"
  shows "path (f(new \<mapsto> nn\<lparr>b_next := b_next n\<rparr>, a \<mapsto> n\<lparr>b_next := Some new\<rparr>)) p (xs @ a # new # ys)"
  using assms
proof (induction xs arbitrary: p)
  case Nil
  define g where "g = f(new \<mapsto> nn\<lparr>b_next := b_next n\<rparr>, a \<mapsto> n\<lparr>b_next := Some new\<rparr>)"
  have "path g (b_next n) ys = path f (b_next n) ys"
    using Nil by (intro path_frame) (auto simp: g_def)
  moreover have "g a = Some (n\<lparr>b_next := Some new\<rparr>)" "g new = Some (nn\<lparr>b_next := b_next n\<rparr>)"
    using Nil by (auto simp: g_def)
  ultimately show ?case using Nil unfolding g_def [symmetric] by auto
next
  case (Cons x xs)
  then show ?case by (cases "f x") auto
qed

lemma load_node_Some [simp]: "nodes st a = Some n \<Longrightarrow> load_node st (Some a) = Inr n"
  by (simp add: load_node_def)

lemma load_node_None [simp]: "load_node st None = Inl Null_deref"
  by (simp add: load_node_def)

lemma store_node_Some [simp]:
  "nodes st a = Some n' \<Longrightarrow> store_node (Some a) n st = Inr (st\<lparr>nodes := (nodes st)(a \<mapsto> n)\<rparr>)"
  by (simp add: store_node_def)

lemma named_boxesD: "named_boxes st as \<Longrightarrow> a \<in> set as \<Longrightarrow> \<exists>n. nodes st a = Some n \<and> terminated (b_name n)"
  by (force simp: named_boxes_def split: option.splits)

lemma box_listD:
  assumes "box_list st c as"
  obtains p where "cells st c = Some p" and "path (nodes st) p as" and "distinct as" and "named_boxes st as"
  using assms that by (auto simp: box_list_def split: option.splits)

text \<open>Comparing the name of a box of the list.\<close>

lemma strcmp_box:
  assumes "named_boxes st as" and "a \<in> set as" and "terminated nm"
  obtains n r where "nodes st a = Some n" and "c_strcmp (b_name n) nm = Inr r"
    and "r = 0 \<longleftrightarrow> name_of_box st a = cstr nm" and "r < 0 \<longleftrightarrow> name_of_box st a < cstr nm"
proof -
  obtain n where n: "nodes st a = Some n" "terminated (b_name n)" using named_boxesD [OF assms(1,2)] by auto
  from c_strcmp_terminated [OF n(2) assms(3)] n that show thesis by (auto simp: name_of_box_def)
qed

text \<open>The loop stops at the last of the nodes that come before the name.\<close>

lemma locate_path:
  assumes "path (nodes st) (Some a) (a # as)" and "named_boxes st (a # as)" and "terminated nm"
  shows "locate st nm (Some a) =
           Some (Inr (Some (last (a # takeWhile (\<lambda>b. name_of_box st b < cstr nm) as))))"
  using assms
proof (induction as arbitrary: a)
  case Nil
  then obtain n where "nodes st a = Some n" "b_next n = None" by (auto split: option.splits)
  then show ?case by (subst locate.simps) (simp add: locate_step_def)
next
  case (Cons b as)
  then obtain n where n: "nodes st a = Some n" "b_next n = Some b" "path (nodes st) (Some b) (b # as)"
    by (auto split: option.splits)
  have "b \<in> set (a # b # as)" by simp
  with strcmp_box [OF Cons.prems(2) _ Cons.prems(3)] obtain n' r where
    r: "nodes st b = Some n'" "c_strcmp (b_name n') nm = Inr r" "r < 0 \<longleftrightarrow> name_of_box st b < cstr nm"
    by metis
  have step: "locate_step st nm (Some a) = Inr (if name_of_box st b < cstr nm then Inl (Some b) else Inr (Some a))"
    using n r by (simp add: locate_step_def)
  have "named_boxes st (b # as)" using Cons.prems(2) by (simp add: named_boxes_def)
  from Cons.IH [OF n(3) this Cons.prems(3)] show ?case
    by (subst locate.simps) (simp add: step)
qed

subsection \<open>Insertion\<close>

lemma insort_key_split:
  "insort_key f x as = takeWhile (\<lambda>b. f b < f x) as @ x # dropWhile (\<lambda>b. f b < f x) as"
  by (induction as) (auto simp: not_le [symmetric])

text \<open>What insertion leaves: the names, and everything but \<open>next\<close> of the nodes, are as before.\<close>

definition same_boxes :: "box_store \<Rightarrow> box_store \<Rightarrow> bool" where
  "same_boxes st st' \<longleftrightarrow> (\<forall>a. map_option (\<lambda>n. n\<lparr>b_next := None\<rparr>) (nodes st a) =
                              map_option (\<lambda>n. n\<lparr>b_next := None\<rparr>) (nodes st' a))"

lemma same_boxes_upd:
  assumes "nodes st a = Some n" and "n'\<lparr>b_next := None\<rparr> = n\<lparr>b_next := None\<rparr>" and "same_boxes st0 st"
    and "nodes st' = (nodes st)(a \<mapsto> n')"
  shows "same_boxes st0 st'"
  using assms by (auto simp: same_boxes_def)

lemma same_boxes_names:
  assumes "same_boxes st st'"
  shows "name_of_box st' a = name_of_box st a" and "named_boxes st' as = named_boxes st as"
proof -
  have eq: "map_option b_name (nodes st' a) = map_option b_name (nodes st a)" for a
  proof -
    have "map_option b_name (map_option (\<lambda>n. n\<lparr>b_next := None\<rparr>) (nodes st' a)) =
        map_option b_name (map_option (\<lambda>n. n\<lparr>b_next := None\<rparr>) (nodes st a))"
      using assms by (simp add: same_boxes_def)
    then show ?thesis by (simp add: option.map_comp comp_def)
  qed
  show "name_of_box st' a = name_of_box st a"
    using eq [of a] by (auto simp: name_of_box_def split: option.splits)
  have "(case nodes st' a of None \<Rightarrow> False | Some n \<Rightarrow> terminated (b_name n)) =
      (case nodes st a of None \<Rightarrow> False | Some n \<Rightarrow> terminated (b_name n))" for a
    using eq [of a] by (auto split: option.splits)
  then show "named_boxes st' as = named_boxes st as" by (simp add: named_boxes_def)
qed

text \<open>What \<open>insertion_sort\<close> promises: the list ordered by name with the new box at its place.\<close>

definition sorts_in :: "box_store \<Rightarrow> nat \<Rightarrow> nat list \<Rightarrow> nat \<Rightarrow> bool" where
  "sorts_in st c as new \<longleftrightarrow> (\<exists>st'. insertion_sort (Some c) (Some new) st = Some (Inr st') \<and>
     box_list st' c (insort_key (name_of_box st) new as) \<and> same_boxes st st' \<and>
     (\<forall>d. d \<noteq> c \<longrightarrow> cells st' d = cells st d))"

lemma goes_first_eq:
  assumes "path (nodes st) p as" and "named_boxes st as" and "nodes st new = Some nn"
    and "terminated (b_name nn)"
  shows "goes_first st p (Some new) =
     Inr (as = [] \<or> name_of_box st new \<le> name_of_box st (hd as))"
proof (cases as)
  case Nil
  then show ?thesis using assms(1) by (simp add: goes_first_def)
next
  case (Cons a as')
  have "cstr (b_name nn) = name_of_box st new" "a \<in> set as"
    using assms(3) Cons by (simp_all add: name_of_box_def)
  with strcmp_box [OF assms(2) _ assms(4)] obtain n r where
    "nodes st a = Some n" "c_strcmp (b_name n) (b_name nn) = Inr r"
    "r < 0 \<longleftrightarrow> name_of_box st a < name_of_box st new"
    by metis
  then show ?thesis using assms(1,3) Cons by (auto simp: goes_first_def not_less)
qed

text \<open>The two branches: before the first box, and behind the box where the search ends.\<close>

lemma insertion_sort_front:
  assumes list: "box_list st c as" and new: "nodes st new = Some nn" "terminated (b_name nn)" "new \<notin> set as"
    and front: "as = [] \<or> name_of_box st new \<le> name_of_box st (hd as)"
    and ins: "named_boxes st (insort_key (name_of_box st) new as)"
      "distinct (insort_key (name_of_box st) new as)"
  shows "sorts_in st c as new"
proof -
  obtain p where p: "cells st c = Some p" "path (nodes st) p as" "distinct as" "named_boxes st as"
    using list by (rule box_listD)
  let ?st = "st\<lparr>nodes := (nodes st)(new \<mapsto> nn\<lparr>b_next := p\<rparr>), cells := (cells st)(c \<mapsto> Some new)\<rparr>"
  have eq: "insort_key (name_of_box st) new as = new # as" using front by (cases as) auto
  have "insertion_sort (Some c) (Some new) st = Some (Inr ?st)"
    using p(1) goes_first_eq [OF p(2,4) new(1,2)] front new(1)
    by (simp add: insertion_sort_def load_cell_def store_cell_def)
  moreover have sb: "same_boxes st ?st" using new(1) by (simp add: same_boxes_def)
  moreover have "box_list ?st c (new # as)"
    using ins p(2) new(3) same_boxes_names(2) [OF sb] unfolding eq by (simp add: box_list_def)
  ultimately show ?thesis unfolding sorts_in_def eq by auto
qed

lemma insertion_sort_behind:
  assumes list: "box_list st c as" and new: "nodes st new = Some nn" "terminated (b_name nn)" "new \<notin> set as"
    and as: "as = a # as'" "name_of_box st a < name_of_box st new"
    and ins: "named_boxes st (insort_key (name_of_box st) new as)"
      "distinct (insort_key (name_of_box st) new as)"
  shows "sorts_in st c as new"
proof -
  obtain p where p: "cells st c = Some p" "path (nodes st) p as" "distinct as" "named_boxes st as"
    using list by (rule box_listD)
  let ?before = "takeWhile (\<lambda>b. name_of_box st b < name_of_box st new) as'"
  let ?after = "dropWhile (\<lambda>b. name_of_box st b < name_of_box st new) as'"
  let ?cur = "last (a # ?before)" and ?xs = "butlast (a # ?before)"
  have split: "a # ?before = ?xs @ [?cur]" by simp
  have as_split: "as = ?xs @ ?cur # ?after"
    using as(1) split by (metis append.assoc append_Cons append_Nil takeWhile_dropWhile_id)
  have cur: "?cur \<in> set as" by (subst as_split) simp
  then obtain cn where cn: "nodes st ?cur = Some cn" using named_boxesD [OF p(4)] by blast
  have ne: "new \<noteq> ?cur" using new(3) cur by auto
  have pa: "p = Some a" using p(2) as(1) by simp
  have first: "goes_first st p (Some new) = Inr False"
    using goes_first_eq [OF p(2,4) new(1,2)] as by (simp add: not_le)
  have "cstr (b_name nn) = name_of_box st new" using new(1) by (simp add: name_of_box_def)
  then have loc: "locate st (b_name nn) p = Some (Inr (Some ?cur))"
    using locate_path [of st a as' "b_name nn"] p(2,4) as(1) new(2) pa by simp
  let ?f = "(nodes st)(new \<mapsto> nn\<lparr>b_next := b_next cn\<rparr>, ?cur \<mapsto> cn\<lparr>b_next := Some new\<rparr>)"
  let ?st = "st\<lparr>nodes := ?f\<rparr>"
  have "insert_after (Some ?cur) (Some new) st = Inr ?st"
    using cn new(1) ne by (simp add: insert_after_def del: last.simps)
  then have "insertion_sort (Some c) (Some new) st = Some (Inr ?st)"
    using p(1) first new(1) loc by (simp add: insertion_sort_def load_cell_def del: last.simps)
  moreover have sb: "same_boxes st ?st" using new(1) cn by (simp add: same_boxes_def del: last.simps)
  moreover have "insort_key (name_of_box st) new as = ?xs @ ?cur # new # ?after"
    using as split by (simp add: insort_key_split del: last.simps)
  moreover have "path ?f p (?xs @ ?cur # new # ?after)"
    using path_insert [of "nodes st" p ?xs ?cur ?after new cn nn] p(2,3) new(3) cn
    unfolding as_split [symmetric] by blast
  ultimately show ?thesis
    using ins same_boxes_names(2) [OF sb] p(1) by (auto simp: box_list_def sorts_in_def)
qed

lemma insertion_sort_eq:
  assumes "box_list st c as" and "nodes st new = Some nn" and "terminated (b_name nn)" and "new \<notin> set as"
  shows "\<exists>st'. insertion_sort (Some c) (Some new) st = Some (Inr st') \<and>
           box_list st' c (insort_key (name_of_box st) new as) \<and> same_boxes st st' \<and>
           (\<forall>d. d \<noteq> c \<longrightarrow> cells st' d = cells st d)"
proof -
  obtain p where p: "distinct as" "named_boxes st as" using assms(1) by (rule box_listD)
  have ins: "named_boxes st (insort_key (name_of_box st) new as)"
    "distinct (insort_key (name_of_box st) new as)"
    using p assms(2-4) by (simp_all add: named_boxes_def set_insort_key distinct_insort)
  have "sorts_in st c as new"
  proof (cases "as = [] \<or> name_of_box st new \<le> name_of_box st (hd as)")
    case True
    then show ?thesis by (rule insertion_sort_front [OF assms _ ins])
  next
    case False
    then obtain a as' where "as = a # as'" "name_of_box st a < name_of_box st new"
      by (cases as) (auto simp: not_le)
    then show ?thesis by (rule insertion_sort_behind [OF assms _ _ ins])
  qed
  then show ?thesis by (simp add: sorts_in_def)
qed

subsection \<open>The interface of a sorted collection\<close>

fun put_all :: "('a \<Rightarrow> 's \<Rightarrow> 's res option) \<Rightarrow> 'a list \<Rightarrow> 's \<Rightarrow> 's res option" where
  "put_all put [] s = Some (Inr s)"
| "put_all put (a # as) s =
     (case put a s of
        None \<Rightarrow> None
      | Some (Inl e) \<Rightarrow> Some (Inl e)
      | Some (Inr s) \<Rightarrow> put_all put as s)"

locale sorted_collection =
  fixes holds :: "'s \<Rightarrow> 'a list \<Rightarrow> bool"
    and key :: "'s \<Rightarrow> 'a \<Rightarrow> 'k :: linorder"
    and ready :: "'s \<Rightarrow> 'a \<Rightarrow> bool"
    and put :: "'a \<Rightarrow> 's \<Rightarrow> 's res option"
  assumes put_law: "holds s as \<Longrightarrow> ready s a \<Longrightarrow> a \<notin> set as \<Longrightarrow>
      \<exists>s'. put a s = Some (Inr s') \<and> holds s' (insort_key (key s) a as) \<and>
           key s' = key s \<and> ready s' = ready s"
begin

text \<open>Insertion keeps a sorted collection sorted.\<close>

lemma put_sorted:
  assumes "holds s as" and "sorted (map (key s) as)" and "ready s a" and "a \<notin> set as"
  shows "\<exists>s' as'. put a s = Some (Inr s') \<and> holds s' as' \<and> sorted (map (key s') as') \<and>
           set as' = insert a (set as) \<and> length as' = Suc (length as)"
proof -
  obtain s' where "put a s = Some (Inr s')" "holds s' (insort_key (key s) a as)" "key s' = key s"
    using put_law [OF assms(1,3,4)] by blast
  then show ?thesis using assms(2)
    by (intro exI [of _ s'] exI [of _ "insort_key (key s) a as"])
      (simp add: sorted_insort_key set_insort_key)
qed

text \<open>Inserting any distinct elements one after the other gives them all, sorted.\<close>

lemma put_all_sorts:
  assumes "holds s as" and "sorted (map (key s) as)" and "\<And>x. x \<in> set xs \<Longrightarrow> ready s x"
    and "distinct (xs @ as)"
  shows "\<exists>s' ys. put_all put xs s = Some (Inr s') \<and> holds s' ys \<and> key s' = key s \<and>
           sorted (map (key s) ys) \<and> set ys = set xs \<union> set as \<and> length ys = length xs + length as"
  using assms
proof (induction xs arbitrary: s as)
  case (Cons a xs)
  then have "a \<notin> set as" "ready s a" by simp_all
  from put_law [OF Cons.prems(1) this(2,1)] obtain s' where
    s': "put a s = Some (Inr s')" "holds s' (insort_key (key s) a as)" "key s' = key s" "ready s' = ready s"
    by blast
  have "\<exists>s'' ys. put_all put xs s' = Some (Inr s'') \<and> holds s'' ys \<and> key s'' = key s' \<and>
      sorted (map (key s') ys) \<and> set ys = set xs \<union> set (insort_key (key s) a as) \<and>
      length ys = length xs + length (insort_key (key s) a as)"
    by (rule Cons.IH [OF s'(2)])
      (use Cons.prems s' in \<open>auto simp: sorted_insort_key set_insort_key distinct_insort\<close>)
  then show ?case using s' by (auto simp: set_insort_key)
qed auto

end

definition box_ready :: "box_store \<Rightarrow> nat \<Rightarrow> bool" where
  "box_ready st a \<longleftrightarrow> named_boxes st [a]"

interpretation box_sorted: sorted_collection "\<lambda>st as. box_list st c as" name_of_box box_ready
  "\<lambda>a st. insertion_sort (Some c) (Some a) st" for c
proof unfold_locales
  fix st as a
  assume list: "box_list st c as" and ready: "box_ready st a" and a: "a \<notin> set as"
  obtain n where n: "nodes st a = Some n" "terminated (b_name n)"
    using ready named_boxesD [of st "[a]" a] by (auto simp: box_ready_def)
  from insertion_sort_eq [OF list n a] obtain st' where
    st': "insertion_sort (Some c) (Some a) st = Some (Inr st')"
    "box_list st' c (insort_key (name_of_box st) a as)" "same_boxes st st'" by blast
  then show "\<exists>s'. insertion_sort (Some c) (Some a) st = Some (Inr s') \<and>
      box_list s' c (insort_key (name_of_box st) a as) \<and>
      name_of_box s' = name_of_box st \<and> box_ready s' = box_ready st"
    using same_boxes_names [OF st'(3)] by (auto simp: fun_eq_iff box_ready_def)
qed

subsection \<open>Searching and removing\<close>

lemma find_loop_eq:
  assumes "path (nodes st) p as" and "named_boxes st as" and "terminated nm"
  shows "find_loop st nm p = Some (Inr (List.find (\<lambda>a. name_of_box st a \<noteq> cstr nm) as))"
  using assms
proof (induction as arbitrary: p)
  case Nil
  then show ?case by (subst find_loop.simps) (simp add: find_step_def)
next
  case (Cons a as)
  have "a \<in> set (a # as)" by simp
  with strcmp_box [OF Cons.prems(2) _ Cons.prems(3)] obtain n r where
    n: "nodes st a = Some n" "c_strcmp (b_name n) nm = Inr r" "r = 0 \<longleftrightarrow> name_of_box st a = cstr nm"
    by metis
  have "p = Some a" "path (nodes st) (b_next n) as" using Cons.prems(1) n(1) by auto
  moreover have "named_boxes st as" using Cons.prems(2) by (simp add: named_boxes_def)
  ultimately show ?case using n Cons.IH [of "b_next n"] Cons.prems(3)
    by (subst find_loop.simps) (simp add: find_step_def)
qed

lemma find_box_eq:
  assumes "box_list st c as" and "terminated nm"
  shows "find_box (Some c) nm st = Some (Inr (List.find (\<lambda>a. name_of_box st a \<noteq> cstr nm) as))"
proof -
  obtain p where "cells st c = Some p" "path (nodes st) p as" "named_boxes st as"
    using assms(1) by (rule box_listD)
  then show ?thesis using find_loop_eq [OF _ _ assms(2)] by (simp add: find_box_def load_cell_def)
qed

lemma remove_loop_repeats:
  assumes "remove_loop st nm aux = Some r"
  shows "aux \<noteq> None \<longrightarrow> remove_step st nm aux \<noteq> Inr None"
proof (rule remove_loop.raw_induct [OF _ assms])
  fix loop st nm aux r
  assume IH: "\<And>st nm aux r. loop st nm aux = Some r \<Longrightarrow> aux \<noteq> None \<longrightarrow> remove_step st nm aux \<noteq> Inr None"
    and body: "(if aux = None then Some (Inr (False, st))
      else (case remove_step st nm aux of Inl e \<Rightarrow> Some (Inl e)
        | Inr None \<Rightarrow> loop st nm aux | Inr (Some st) \<Rightarrow> Some (Inr (True, st)))) = Some r"
  show "aux \<noteq> None \<longrightarrow> remove_step st nm aux \<noteq> Inr None"
  proof (intro impI notI)
    assume stuck: "aux \<noteq> None" "remove_step st nm aux = Inr None"
    then have "loop st nm aux = Some r" using body by auto
    from IH [OF this] stuck show False by simp
  qed
qed

lemma remove_loop_diverges:
  "aux \<noteq> None \<Longrightarrow> remove_step st nm aux = Inr None \<Longrightarrow> remove_loop st nm aux = None"
  using remove_loop_repeats by (metis not_None_eq)

lemma box_list_first:
  assumes "box_list st c (a # as)"
  obtains n where "nodes st a = Some n" and "path (nodes st) (b_next n) as" and "cells st c = Some (Some a)"
    and "distinct (a # as)" and "named_boxes st (a # as)"
proof -
  obtain p where p: "cells st c = Some p" "path (nodes st) p (a # as)" "distinct (a # as)" "named_boxes st (a # as)"
    using assms by (rule box_listD)
  then obtain n where n: "nodes st a = Some n" by (auto split: option.splits)
  have "p = Some a" "path (nodes st) (b_next n) as" using p(2) n by simp_all
  with p n show thesis by (intro that [of n]) simp_all
qed

lemma remove_box_start:
  assumes "box_list st c (a # as)" and "terminated nm" and "nodes st a = Some n"
  shows "remove_box (Some c) nm st =
      (if name_of_box st a = cstr nm
       then Some (Inr (True, st\<lparr>cells := (cells st)(c \<mapsto> b_next n)\<rparr>))
       else remove_loop st nm (Some a))"
proof -
  obtain m where m: "cells st c = Some (Some a)" "named_boxes st (a # as)"
    using assms(1) by (rule box_list_first)
  have "a \<in> set (a # as)" by simp
  with strcmp_box [OF m(2) _ assms(2)] obtain n' r where
    "nodes st a = Some n'" "c_strcmp (b_name n') nm = Inr r" "r = 0 \<longleftrightarrow> name_of_box st a = cstr nm"
    by metis
  then show ?thesis using assms(3) m(1) by (simp add: remove_box_def load_cell_def store_cell_def)
qed

lemma remove_first:
  assumes "box_list st c (a # as)" and "terminated nm" and "name_of_box st a = cstr nm"
  shows "\<exists>st'. remove_box (Some c) nm st = Some (Inr (True, st')) \<and> box_list st' c as \<and> nodes st' = nodes st"
proof -
  obtain n where n: "nodes st a = Some n" "path (nodes st) (b_next n) as"
    "distinct (a # as)" "named_boxes st (a # as)"
    using assms(1) by (rule box_list_first)
  then show ?thesis using remove_box_start [OF assms(1,2) n(1)] assms(3)
    by (simp add: box_list_def named_boxes_def)
qed

text \<open>The loop, at a list of at least two boxes: the second is unlinked, or the loop spins.\<close>

lemma remove_second:
  assumes "box_list st c (a # b # as)" and "terminated nm" and "name_of_box st a \<noteq> cstr nm"
  shows "name_of_box st b = cstr nm \<Longrightarrow>
           \<exists>st'. remove_box (Some c) nm st = Some (Inr (True, st')) \<and> box_list st' c (a # as)"
    and "name_of_box st b \<noteq> cstr nm \<Longrightarrow> remove_box (Some c) nm st = None"
proof -
  obtain n where n: "nodes st a = Some n" "path (nodes st) (b_next n) (b # as)" "cells st c = Some (Some a)"
    and named: "distinct (a # b # as)" "named_boxes st (a # b # as)"
    using assms(1) by (rule box_list_first)
  have start: "remove_box (Some c) nm st = remove_loop st nm (Some a)"
    using remove_box_start [OF assms(1,2) n(1)] assms(3) by simp
  have "b \<in> set (a # b # as)" by simp
  with strcmp_box [OF named(2) _ assms(2)] obtain n' r where
    n': "nodes st b = Some n'" "c_strcmp (b_name n') nm = Inr r" "r = 0 \<longleftrightarrow> name_of_box st b = cstr nm"
    by metis
  have nx: "b_next n = Some b" "path (nodes st) (b_next n') as" using n(2) n'(1) by auto
  define st2 where "st2 = st\<lparr>nodes := (nodes st)(a \<mapsto> n\<lparr>b_next := b_next n'\<rparr>)\<rparr>"
  have step: "remove_step st nm (Some a) = Inr (if r = 0 then Some st2 else None)"
    using n(1) nx(1) n' by (simp add: remove_step_def st2_def)
  show "\<exists>st'. remove_box (Some c) nm st = Some (Inr (True, st')) \<and> box_list st' c (a # as)"
    if "name_of_box st b = cstr nm"
  proof -
    have "remove_box (Some c) nm st = Some (Inr (True, st2))"
      unfolding start using step n'(3) that by (subst remove_loop.simps) simp
    moreover have "box_list st2 c (a # as)"
      using named n(1,3) nx(2) by (auto simp: box_list_def named_boxes_def st2_def)
    ultimately show ?thesis by blast
  qed
  show "remove_box (Some c) nm st = None" if "name_of_box st b \<noteq> cstr nm"
    unfolding start using step n'(3) that by (intro remove_loop_diverges) simp_all
qed

lemma remove_last:
  assumes "box_list st c [a]" and "terminated nm" and "name_of_box st a \<noteq> cstr nm"
  shows "remove_box (Some c) nm st = Some (Inl Null_deref)"
proof -
  obtain n where n: "nodes st a = Some n" "path (nodes st) (b_next n) []"
    using assms(1) by (rule box_list_first)
  have "remove_loop st nm (Some a) = Some (Inl Null_deref)"
    using n by (subst remove_loop.simps) (simp add: remove_step_def)
  then show ?thesis using remove_box_start [OF assms(1,2) n(1)] assms(3) by simp
qed

lemma remove_empty: "box_list st c [] \<Longrightarrow> remove_box (Some c) nm st = Some (Inl Null_deref)"
  by (auto simp: box_list_def remove_box_def load_cell_def split: option.splits)

lemma null_head:
  "find_box None nm st = Some (Inr None)"
  "insertion_sort None new st = Some (Inl Null_deref)"
  "remove_box None nm st = Some (Inl Null_deref)"
  by (simp_all add: find_box_def insertion_sort_def remove_box_def load_cell_def)

lemma newBox_b_eq:
  assumes "terminated nm" and "length (cstr nm) \<le> 32" and "length (b_name junk) = BOX_NAME_LEN"
  shows "\<exists>n st'. newBox_b (Some a) junk nm lst sz np ns st = Inr (Some a, st') \<and>
           nodes st' = (nodes st)(a \<mapsto> n) \<and> cells st' = cells st \<and> cstr (b_name n) = cstr nm \<and>
           terminated (b_name n) \<and> length (b_name n) = BOX_NAME_LEN \<and> b_last n = lst \<and> b_size n = sz \<and>
           b_publishers n = np \<and> b_subscribers n = ns \<and> b_next n = None"
  using assms
  by (intro exI [of _ "\<lparr>b_name = overwrite 0 (cstr nm @ [0]) (b_name junk), b_last = lst, b_size = sz,
        b_publishers = np, b_subscribers = ns, b_next = None\<rparr>"])
    (simp add: newBox_b_def c_strcpy_terminated BOX_NAME_LEN_def overwrite_def)

subsection \<open>Properties\<close>

text \<open>A store for the witnesses: boxes named b, d and c at 4, 5 and 6, the first two in the list.\<close>

definition demo_node :: "byte \<Rightarrow> box \<Rightarrow> box_node" where
  "demo_node ch nxt = \<lparr>b_name = ch # replicate 32 0, b_last = 0, b_size = 1024, b_publishers = 0,
     b_subscribers = 0, b_next = nxt\<rparr>"

definition demo_store :: box_store where
  "demo_store = \<lparr>nodes = [4 \<mapsto> demo_node 98 (Some 5), 5 \<mapsto> demo_node 100 None, 6 \<mapsto> demo_node 99 None],
     cells = [0 \<mapsto> Some 4, 7 \<mapsto> None]\<rparr>"

lemma cstr_zeros [simp]: "cstr (replicate n 0) = []"
  by (cases n) simp_all

lemma demo_list:
  "box_list demo_store 0 [4, 5]" "box_list demo_store 7 []" "sorted_boxes demo_store [4, 5]"
  "nodes demo_store 6 = Some (demo_node 99 None)" "name_of_box demo_store 4 = [98]"
  "name_of_box demo_store 5 = [100]" "name_of_box demo_store 6 = [99]"
  by (simp_all add: box_list_def named_boxes_def sorted_boxes_def name_of_box_def demo_store_def demo_node_def)

text \<open>C23: Insertion agrees with the library's insertion into a list: on any list of boxes, sorted or
  not, the search loop ends and the list afterwards is \<open>insort_key\<close> of the names applied to the
  list before; only \<open>next\<close> fields and the given variable change.\<close>

theorem insertion_sort_is_insort:
  assumes "box_list st c as" and "nodes st new = Some nn" and "terminated (b_name nn)" and "new \<notin> set as"
  shows "\<exists>st'. insertion_sort (Some c) (Some new) st = Some (Inr st') \<and>
           box_list st' c (insort_key (name_of_box st) new as) \<and> same_boxes st st' \<and>
           (\<forall>d. d \<noteq> c \<longrightarrow> cells st' d = cells st d)"
  by (rule insertion_sort_eq [OF assms])

theorem insertion_sort_is_insort_witness:
  "\<exists>st'. insertion_sort (Some 0) (Some 6) demo_store = Some (Inr st') \<and>
     box_list st' 0 (insort_key (name_of_box demo_store) 6 [4, 5]) \<and> cells st' 7 = cells demo_store 7"
  using insertion_sort_is_insort [OF demo_list(1,4)] by (auto simp: demo_node_def)

text \<open>Inserting a new box into a sorted list of boxes returns (the search loop ends) and
  leaves exactly the old boxes and the new one, in the order of their names; only \<open>next\<close> fields
  change.\<close>

theorem insertion_keeps_sorted:
  assumes "box_list st c as" and "sorted_boxes st as"
    and "nodes st new = Some nn" and "terminated (b_name nn)" and "new \<notin> set as"
  shows "\<exists>st' bs. insertion_sort (Some c) (Some new) st = Some (Inr st') \<and> box_list st' c bs \<and>
           sorted_boxes st' bs \<and> set bs = insert new (set as) \<and> length bs = Suc (length as) \<and>
           same_boxes st st'"
proof -
  obtain st' where st': "insertion_sort (Some c) (Some new) st = Some (Inr st')"
    "box_list st' c (insort_key (name_of_box st) new as)" "same_boxes st st'"
    using insertion_sort_eq [OF assms(1,3,4,5)] by blast
  have "name_of_box st' = name_of_box st" using same_boxes_names(1) [OF st'(3)] by auto
  then show ?thesis using st' assms(2)
    by (intro exI [of _ st'] exI [of _ "insort_key (name_of_box st) new as"])
      (simp add: sorted_boxes_def sorted_insort_key set_insort_key)
qed

theorem insertion_keeps_sorted_witness:
  "\<exists>st' bs. insertion_sort (Some 0) (Some 6) demo_store = Some (Inr st') \<and> box_list st' 0 bs \<and>
     sorted_boxes st' bs \<and> set bs = {4, 5, 6}"
  using insertion_keeps_sorted [OF demo_list(1,3,4)] by (auto simp: demo_node_def insert_commute)

text \<open>C4: Boxes inserted one after the other into an empty list, in any order, end up as a list
  of exactly these boxes that is sorted by name.\<close>

theorem insertion_sorts_boxes:
  assumes "box_list st c []" and "distinct xs" and "named_boxes st xs"
  shows "\<exists>st' ys. put_all (\<lambda>a st. insertion_sort (Some c) (Some a) st) xs st = Some (Inr st') \<and>
           box_list st' c ys \<and> set ys = set xs \<and> length ys = length xs \<and> sorted (map (name_of_box st) ys)"
  using box_sorted.put_all_sorts [OF assms(1), of xs] assms(2,3)
  by (auto simp: box_ready_def named_boxes_def)

theorem insertion_sorts_boxes_witness:
  "\<exists>st' ys. put_all (\<lambda>a st. insertion_sort (Some 7) (Some a) st) [5, 6, 4] demo_store = Some (Inr st') \<and>
     box_list st' 7 ys \<and> set ys = {4, 5, 6} \<and> sorted (map (name_of_box demo_store) ys)"
  using insertion_sorts_boxes [OF demo_list(2), of "[5, 6, 4]"]
  by (auto simp: named_boxes_def demo_store_def demo_node_def insert_commute)

text \<open>C26: \<open>find_box\<close> always ends. It returns the first box whose name is \<^emph>\<open>not\<close> the given one, and
  \<open>NULL\<close> only when every box has the given name: the test of \<open>strcmp\<close> is the wrong way round.\<close>

theorem find_box_returns_other_box:
  assumes "box_list st c as" and "terminated nm"
  shows "find_box (Some c) nm st = Some (Inr (List.find (\<lambda>a. name_of_box st a \<noteq> cstr nm) as))"
  by (rule find_box_eq [OF assms])

theorem find_box_returns_other_box_witness:
  "find_box (Some 0) [98, 0] demo_store = Some (Inr (Some 5)) \<and>
   find_box (Some 0) [120, 0] demo_store = Some (Inr (Some 4))"
  using find_box_returns_other_box [OF demo_list(1), of "[98, 0]"]
    find_box_returns_other_box [OF demo_list(1), of "[120, 0]"] by (simp add: demo_list(5,6))

text \<open>C27: \<open>remove_box\<close> removes the box when it is the first or the second of the list. On an
  empty list, and on a list of one box of another name, it reads through a null pointer; and
  when neither of the first two boxes has the name it never returns, although the box may
  be further down the list.\<close>

theorem remove_box_outcome:
  assumes "box_list st c as" and "terminated nm"
  shows "case as of
           [] \<Rightarrow> remove_box (Some c) nm st = Some (Inl Null_deref)
         | a # rest \<Rightarrow>
             if name_of_box st a = cstr nm
             then (\<exists>st'. remove_box (Some c) nm st = Some (Inr (True, st')) \<and> box_list st' c rest)
             else (case rest of
                     [] \<Rightarrow> remove_box (Some c) nm st = Some (Inl Null_deref)
                   | b # others \<Rightarrow>
                       if name_of_box st b = cstr nm
                       then (\<exists>st'. remove_box (Some c) nm st = Some (Inr (True, st')) \<and>
                                   box_list st' c (a # others))
                       else remove_box (Some c) nm st = None)"
proof (cases as)
  case Nil
  then show ?thesis using remove_empty assms(1) by simp
next
  case (Cons a rest)
  show ?thesis
  proof (cases "name_of_box st a = cstr nm")
    case True
    from remove_first [OF assms(1) [unfolded Cons] assms(2) True] True Cons show ?thesis by auto
  next
    case other: False
    show ?thesis
    proof (cases rest)
      case Nil
      then show ?thesis using remove_last [of st c a nm] assms other Cons by simp
    next
      case (Cons b others)
      with \<open>as = a # rest\<close> have "box_list st c (a # b # others)" using assms(1) by simp
      from remove_second [OF this assms(2) other] show ?thesis using Cons \<open>as = a # rest\<close> other by simp
    qed
  qed
qed

theorem remove_box_outcome_witness:
  "(\<exists>st'. remove_box (Some 0) [100, 0] demo_store = Some (Inr (True, st')) \<and> box_list st' 0 [4]) \<and>
   remove_box (Some 0) [99, 0] demo_store = None"
  using remove_box_outcome [OF demo_list(1), of "[100, 0]"] remove_box_outcome [OF demo_list(1), of "[99, 0]"]
  by (simp add: demo_list(5,6))

text \<open>\<open>newBox_b\<close> on a name of at most 32 characters stores it and the given fields in a node
  that is not linked to any other.\<close>

theorem new_box_fields:
  assumes "terminated nm" and "length (cstr nm) \<le> 32" and "length (b_name junk) = BOX_NAME_LEN"
  shows "\<exists>n st'. newBox_b (Some a) junk nm lst sz np ns st = Inr (Some a, st') \<and>
           nodes st' = (nodes st)(a \<mapsto> n) \<and> cells st' = cells st \<and> cstr (b_name n) = cstr nm \<and>
           terminated (b_name n) \<and> length (b_name n) = BOX_NAME_LEN \<and> b_last n = lst \<and> b_size n = sz \<and>
           b_publishers n = np \<and> b_subscribers n = ns \<and> b_next n = None"
  by (rule newBox_b_eq [OF assms])

theorem new_box_fields_witness:
  "\<exists>n st'. newBox_b (Some 9) (demo_node 1 None) [47, 98, 0, 5] 1 1024 0 0 demo_store = Inr (Some 9, st') \<and>
     nodes st' 9 = Some n \<and> cstr (b_name n) = [47, 98] \<and> b_size n = 1024"
  using new_box_fields [of "[47, 98, 0, 5]" "demo_node 1 None" 9 1 1024 0 0 demo_store]
  by (auto simp: demo_node_def BOX_NAME_LEN_def)

text \<open>A name of more than 32 characters is written past the end of the node's name, and a
  failed \<open>malloc\<close> is written through.\<close>

theorem new_box_faults:
  assumes "terminated nm" and "length (cstr nm) > 32"
  shows "newBox_b (Some a) junk nm lst sz np ns st = Inl Out_of_bounds \<and>
         newBox_b None junk nm lst sz np ns st = Inl Null_deref"
  using assms by (simp add: newBox_b_def c_strcpy_terminated BOX_NAME_LEN_def)

theorem new_box_faults_witness:
  "newBox_b (Some 9) (demo_node 1 None) (replicate 40 98 @ [0]) 0 0 0 0 demo_store = Inl Out_of_bounds"
  using new_box_faults [of "replicate 40 98 @ [0]"] by simp

end
