(* ===== verification/PcQueue.thy ===== *)
theory PcQueue
  imports Prelude
begin

text \<open>
  The producer-consumer queue of \<open>producer-consumer/producer-consumer.c\<close>. The broker creates one
  and never uses it; its operations are modelled for one thread, and then as steps of any number
  of threads that interleave between the calls of \<open>pthread_mutex_lock\<close> and \<open>unlock\<close>.

  A mutex is a boolean, \<open>True\<close> when held. Nothing in the program calls \<open>pthread_cond_signal\<close>
  or \<open>broadcast\<close>, and \<open>pcq_current_size_lock\<close> stays held during \<open>pthread_cond_wait\<close>, so the
  condition a waiting loop tests never changes: a wait is \<open>Deadlock\<close>. Unlocking a mutex that is
  not held leaves it not held.
\<close>

subsection \<open>The queue\<close>

text \<open>Elements are \<open>void *\<close> values, given as numbers; \<open>pcq_buffer\<close> is the memory it points to.\<close>

type_synonym elem = nat

record pc_queue_t =
  pcq_buffer :: "elem list option"
  pcq_capacity :: size_t
  pcq_current_size_lock :: bool
  pcq_current_size :: size_t
  pcq_head_lock :: bool
  pcq_head :: size_t
  pcq_tail_lock :: bool
  pcq_tail :: size_t
  pcq_pusher_condvar_lock :: bool
  pcq_popper_condvar_lock :: bool

text \<open>
  \<open>malloc (capacity * sizeof (void))\<close> asks for \<open>capacity\<close> bytes, \<open>sizeof (void)\<close> being 1, which
  is room for \<open>capacity div 8\<close> pointers. \<open>mem\<close> is what \<open>malloc\<close> returns, \<open>queue\<close> the memory
  of the structure before the call.
\<close>

definition sizeof_void :: size_t where "sizeof_void = 1"
definition sizeof_ptr :: nat where "sizeof_ptr = 8"

definition pcq_create :: "(nat \<Rightarrow> elem) option \<Rightarrow> size_t \<Rightarrow> pc_queue_t \<Rightarrow> int \<times> pc_queue_t" where
  "pcq_create mem capacity queue =
     (let queue = queue\<lparr>pcq_capacity := capacity\<rparr>;
          bytes = pcq_capacity queue * sizeof_void;
          queue = queue\<lparr>pcq_buffer := map_option (\<lambda>g. map g [0..<unat bytes div sizeof_ptr]) mem,
                        pcq_head := 0, pcq_tail := - 1, pcq_current_size := 0\<rparr>
      in if pcq_buffer queue = None then (- 1, queue)
         else (0, queue\<lparr>pcq_capacity := capacity,
                 pcq_current_size_lock := False, pcq_head_lock := False, pcq_tail_lock := False,
                 pcq_pusher_condvar_lock := False, pcq_popper_condvar_lock := False\<rparr>))"

text \<open>Freed memory is no memory: an access to it faults.\<close>

definition pcq_destroy :: "pc_queue_t \<Rightarrow> int \<times> pc_queue_t" where
  "pcq_destroy queue = (0, queue\<lparr>pcq_buffer := None\<rparr>)"

definition lock_size :: "pc_queue_t \<Rightarrow> pc_queue_t res" where
  "lock_size queue =
     (if pcq_current_size_lock queue then Inl Deadlock else Inr (queue\<lparr>pcq_current_size_lock := True\<rparr>))"

definition lock_tail :: "pc_queue_t \<Rightarrow> pc_queue_t res" where
  "lock_tail queue = (if pcq_tail_lock queue then Inl Deadlock else Inr (queue\<lparr>pcq_tail_lock := True\<rparr>))"

definition lock_head :: "pc_queue_t \<Rightarrow> pc_queue_t res" where
  "lock_head queue = (if pcq_head_lock queue then Inl Deadlock else Inr (queue\<lparr>pcq_head_lock := True\<rparr>))"

text \<open>The loop around \<open>pthread_cond_wait\<close>.\<close>

definition wait_while :: "bool \<Rightarrow> unit res" where
  "wait_while c = (if c then Inl Deadlock else Inr ())"

text \<open>What \<open>pcq_enqueue\<close> does with both locks held, up to the first unlock.\<close>

definition put_elem :: "elem \<Rightarrow> pc_queue_t \<Rightarrow> pc_queue_t res" where
  "put_elem elem queue =
     (let tail = (if pcq_tail queue = pcq_capacity queue then 0 else pcq_tail queue + 1) in
      res_bind (store_at (pcq_buffer queue) (uint tail) elem) (\<lambda>buffer.
        Inr (queue\<lparr>pcq_tail := tail, pcq_buffer := buffer,
                   pcq_current_size := pcq_current_size queue + 1\<rparr>)))"

definition pcq_enqueue :: "elem \<Rightarrow> pc_queue_t \<Rightarrow> (int \<times> pc_queue_t) res" where
  "pcq_enqueue elem queue =
     res_bind (lock_size queue) (\<lambda>queue.
     res_bind (wait_while (pcq_current_size queue = pcq_capacity queue)) (\<lambda>_.
     res_bind (lock_tail queue) (\<lambda>queue.
     res_bind (put_elem elem queue) (\<lambda>queue.
       Inr (0, queue\<lparr>pcq_current_size_lock := False, pcq_tail_lock := False\<rparr>)))))"

text \<open>What \<open>pcq_dequeue\<close> does with both locks held: it moves the head once when it reads, and
  again unless the \<^emph>\<open>tail\<close> is at the capacity.\<close>

definition take_elem :: "pc_queue_t \<Rightarrow> (elem \<times> pc_queue_t) res" where
  "take_elem queue =
     res_bind (load_at (pcq_buffer queue) (uint (pcq_head queue))) (\<lambda>elem.
     let queue = queue\<lparr>pcq_head := pcq_head queue + 1\<rparr>;
         queue = (if pcq_tail queue = pcq_capacity queue then queue\<lparr>pcq_tail := 0\<rparr>
                  else queue\<lparr>pcq_head := pcq_head queue + 1\<rparr>)
     in Inr (elem, queue\<lparr>pcq_current_size := pcq_current_size queue - 1\<rparr>))"

text \<open>At the end the code unlocks \<open>pcq_popper_condvar_lock\<close>, which it never locked, and not
  \<open>pcq_current_size_lock\<close>, which it did.\<close>

definition pcq_dequeue :: "pc_queue_t \<Rightarrow> (elem \<times> pc_queue_t) res" where
  "pcq_dequeue queue =
     res_bind (lock_size queue) (\<lambda>queue.
     res_bind (wait_while (pcq_current_size queue = 0)) (\<lambda>_.
     res_bind (lock_head queue) (\<lambda>queue.
     res_bind (take_elem queue) (\<lambda>(elem, queue).
       Inr (elem, queue\<lparr>pcq_popper_condvar_lock := False, pcq_head_lock := False\<rparr>)))))"

fun enqueue_all :: "elem list \<Rightarrow> pc_queue_t \<Rightarrow> pc_queue_t res" where
  "enqueue_all [] q = Inr q"
| "enqueue_all (x # xs) q = res_bind (pcq_enqueue x q) (\<lambda>(_, q). enqueue_all xs q)"

subsection \<open>One thread\<close>

text \<open>
  \<open>filled q xs\<close>: no lock is held and the elements \<open>xs\<close> were enqueued since the queue was created
  and none dequeued.
\<close>

definition filled :: "pc_queue_t \<Rightarrow> elem list \<Rightarrow> bool" where
  "filled q xs \<longleftrightarrow> \<not> pcq_current_size_lock q \<and> \<not> pcq_tail_lock q \<and> \<not> pcq_head_lock q \<and>
     pcq_head q = 0 \<and> pcq_current_size q = of_nat (length xs) \<and> pcq_tail q = of_nat (length xs) - 1 \<and>
     (case pcq_buffer q of None \<Rightarrow> False
      | Some b \<Rightarrow> length b = unat (pcq_capacity q) div 8 \<and> length xs \<le> length b \<and> take (length xs) b = xs)"

lemma filledD:
  assumes "filled q xs"
  obtains b where "pcq_buffer q = Some b" and "length b = unat (pcq_capacity q) div 8"
    and "length xs \<le> length b" and "take (length xs) b = xs" and "\<not> pcq_current_size_lock q"
    and "\<not> pcq_tail_lock q" and "\<not> pcq_head_lock q" and "pcq_head q = 0"
    and "pcq_current_size q = of_nat (length xs)" and "pcq_tail q = of_nat (length xs) - 1"
  using assms by (cases "pcq_buffer q") (auto simp: filled_def)

lemma create_filled:
  "snd (pcq_create (Some g) c q) = q' \<Longrightarrow> filled q' [] \<and> pcq_capacity q' = c"
  by (auto simp: pcq_create_def filled_def sizeof_void_def sizeof_ptr_def Let_def)

text \<open>A number of elements that fits the buffer is not the capacity, and \<open>tail\<close> is not either.\<close>

lemma small_not_capacity:
  fixes c :: size_t
  assumes "n \<le> unat c div 8" and "0 < unat c"
  shows "(of_nat n :: size_t) \<noteq> c" and "(of_nat n - 1 :: size_t) \<noteq> c \<or> n = 0"
    and "uint (of_nat n :: size_t) = int n"
proof -
  have "unat c < 2 ^ LENGTH(64)" by (rule unsigned_less)
  then have c: "unat c < 2 ^ 64" by simp
  have n: "n < unat c" using assms by simp
  have u: "unat (of_nat n :: size_t) = n" using unat_of_nat_size n c by simp
  then show "uint (of_nat n :: size_t) = int n" by (metis uint_nat)
  show "(of_nat n :: size_t) \<noteq> c" using u n by auto
  show "(of_nat n - 1 :: size_t) \<noteq> c \<or> n = 0"
  proof (cases n)
    case (Suc m)
    have "unat (of_nat m :: size_t) = m" using unat_of_nat_size [of m] n c Suc by simp
    then have "(of_nat m :: size_t) \<noteq> c" using n Suc by auto
    then show ?thesis using Suc by simp
  qed simp
qed

lemma enqueue_tail:
  assumes "filled q xs" and "0 < unat (pcq_capacity q)" and "pcq_capacity q \<noteq> - 1"
  shows "pcq_tail q \<noteq> pcq_capacity q" and "pcq_tail q + 1 = of_nat (length xs)"
    and "pcq_current_size q \<noteq> pcq_capacity q" and "uint (of_nat (length xs) :: size_t) = int (length xs)"
proof -
  obtain b where "pcq_buffer q = Some b" and b: "length b = unat (pcq_capacity q) div 8" "length xs \<le> length b"
    "pcq_current_size q = of_nat (length xs)" "pcq_tail q = of_nat (length xs) - 1"
    using assms(1) by (rule filledD)
  have le: "length xs \<le> unat (pcq_capacity q) div 8" using b by simp
  note small = small_not_capacity [OF le assms(2)]
  show "pcq_tail q \<noteq> pcq_capacity q" using small(2) assms(3) b(4) by (cases "length xs = 0") auto
  show "pcq_tail q + 1 = of_nat (length xs)" using b(4) by simp
  show "pcq_current_size q \<noteq> pcq_capacity q" using small(1) b(3) by simp
  show "uint (of_nat (length xs) :: size_t) = int (length xs)" by (rule small(3))
qed

lemma enqueue_filled:
  assumes "filled q xs" and "length xs < unat (pcq_capacity q) div 8" and "pcq_capacity q \<noteq> - 1"
  shows "\<exists>q'. pcq_enqueue x q = Inr (0, q') \<and> filled q' (xs @ [x]) \<and> pcq_capacity q' = pcq_capacity q"
proof -
  obtain b where b: "pcq_buffer q = Some b" "length b = unat (pcq_capacity q) div 8"
    "take (length xs) b = xs" "\<not> pcq_current_size_lock q" "\<not> pcq_tail_lock q" "\<not> pcq_head_lock q"
    "pcq_head q = 0" "pcq_current_size q = of_nat (length xs)" "pcq_tail q = of_nat (length xs) - 1"
    using assms(1) by (rule filledD)
  have pos: "0 < unat (pcq_capacity q)" using assms(2) by (cases "unat (pcq_capacity q)") simp_all
  note t = enqueue_tail [OF assms(1) pos assms(3)]
  have "length xs < length b" using assms(2) b(2) by simp
  then have "take (Suc (length xs)) (b[length xs := x]) = xs @ [x]"
    using b(3) by (simp add: take_Suc_conv_app_nth)
  then show ?thesis using b t assms(2)
    by (simp add: pcq_enqueue_def lock_size_def wait_while_def lock_tail_def put_elem_def filled_def Let_def)
qed

lemma enqueue_overflow:
  assumes "filled q xs" and "length xs = unat (pcq_capacity q) div 8" and "0 < unat (pcq_capacity q)"
    and "pcq_capacity q \<noteq> - 1"
  shows "pcq_enqueue x q = Inl Out_of_bounds"
proof -
  obtain b where b: "pcq_buffer q = Some b" "length b = unat (pcq_capacity q) div 8"
    "\<not> pcq_current_size_lock q" "\<not> pcq_tail_lock q"
    using assms(1) by (rule filledD)
  then show ?thesis using assms(2) enqueue_tail [OF assms(1,3,4)]
    by (simp add: pcq_enqueue_def lock_size_def wait_while_def lock_tail_def put_elem_def Let_def store_at_def)
qed

lemma enqueue_all_filled:
  assumes "filled q ys" and "length ys + length xs \<le> unat (pcq_capacity q) div 8" and "pcq_capacity q \<noteq> - 1"
  shows "\<exists>q'. enqueue_all xs q = Inr q' \<and> filled q' (ys @ xs) \<and> pcq_capacity q' = pcq_capacity q"
  using assms
proof (induction xs arbitrary: q ys)
  case (Cons x xs)
  then have "length ys < unat (pcq_capacity q) div 8" by simp
  from enqueue_filled [OF Cons.prems(1) this Cons.prems(3)] obtain q1 where
    q1: "pcq_enqueue x q = Inr (0, q1)" "filled q1 (ys @ [x])" "pcq_capacity q1 = pcq_capacity q" by blast
  then show ?case using Cons.IH [OF q1(2)] Cons.prems(2,3) by simp
qed simp

text \<open>A successful dequeue leaves the lock of the size held, which blocks every later call.\<close>

lemma dequeue_keeps_lock: "pcq_dequeue q = Inr (x, q') \<Longrightarrow> pcq_current_size_lock q'"
  by (auto simp: pcq_dequeue_def lock_size_def wait_while_def lock_head_def take_elem_def res_iff Let_def
      split: if_splits)

lemma locked_blocks:
  "pcq_current_size_lock q \<Longrightarrow> pcq_enqueue x q = Inl Deadlock"
  "pcq_current_size_lock q \<Longrightarrow> pcq_dequeue q = Inl Deadlock"
  by (simp_all add: pcq_enqueue_def pcq_dequeue_def lock_size_def)

lemma dequeue_filled:
  assumes "filled q (x # xs)" and "pcq_capacity q \<noteq> - 1"
  shows "\<exists>q'. pcq_dequeue q = Inr (x, q') \<and> pcq_head q' = 2 \<and> pcq_current_size q' = of_nat (length xs) \<and>
           pcq_tail q' = pcq_tail q \<and> pcq_buffer q' = pcq_buffer q \<and> pcq_current_size_lock q'"
proof -
  obtain b where b: "pcq_buffer q = Some b" "length b = unat (pcq_capacity q) div 8"
    "length (x # xs) \<le> length b" "take (length (x # xs)) b = x # xs" "\<not> pcq_current_size_lock q"
    "\<not> pcq_head_lock q" "pcq_head q = 0" "pcq_current_size q = of_nat (length (x # xs))"
    using assms(1) by (rule filledD)
  have pos: "0 < unat (pcq_capacity q)" using b(2,3) by (cases "unat (pcq_capacity q)") simp_all
  note t = enqueue_tail [OF assms(1) pos assms(2)]
  have "pcq_current_size q \<noteq> 0" using t(4) unfolding b(8) by auto
  moreover have "b ! 0 = x" using b(3,4) by (cases b) auto
  ultimately show ?thesis using b t(1)
    by (cases b) (simp_all add: pcq_dequeue_def lock_size_def wait_while_def lock_head_def take_elem_def Let_def)
qed

subsection \<open>Many threads\<close>

text \<open>
  The threads are numbered; each is idle or inside a call. The steps are the code between two
  operations on locks. \<open>put_log\<close> and \<open>taken_log\<close> record what was stored and taken, in order.
\<close>

datatype thread_pc =
    Idle
  | Enq_waits elem
  | Enq_stores elem
  | Enq_leaves
  | Deq_waits
  | Deq_takes
  | Deq_leaves elem

record pcq_system =
  shared :: pc_queue_t
  pcs :: "nat \<Rightarrow> thread_pc"
  put_log :: "elem list"
  taken_log :: "elem list"

definition goes :: "nat \<Rightarrow> thread_pc \<Rightarrow> pc_queue_t \<Rightarrow> pcq_system \<Rightarrow> pcq_system" where
  "goes t p q s = s\<lparr>shared := q, pcs := (pcs s)(t := p)\<rparr>"

inductive pcq_step :: "pcq_system \<Rightarrow> pcq_system \<Rightarrow> bool" where
  enq_lock: "pcs s t = Idle \<Longrightarrow> lock_size (shared s) = Inr q \<Longrightarrow> pcq_step s (goes t (Enq_waits x) q s)"
| enq_enter: "pcs s t = Enq_waits x \<Longrightarrow>
    wait_while (pcq_current_size (shared s) = pcq_capacity (shared s)) = Inr () \<Longrightarrow>
    lock_tail (shared s) = Inr q \<Longrightarrow> pcq_step s (goes t (Enq_stores x) q s)"
| enq_store: "pcs s t = Enq_stores x \<Longrightarrow> put_elem x (shared s) = Inr q \<Longrightarrow>
    pcq_step s ((goes t Enq_leaves (q\<lparr>pcq_current_size_lock := False\<rparr>) s)\<lparr>put_log := put_log s @ [x]\<rparr>)"
| enq_leave: "pcs s t = Enq_leaves \<Longrightarrow> pcq_step s (goes t Idle ((shared s)\<lparr>pcq_tail_lock := False\<rparr>) s)"
| deq_lock: "pcs s t = Idle \<Longrightarrow> lock_size (shared s) = Inr q \<Longrightarrow> pcq_step s (goes t Deq_waits q s)"
| deq_enter: "pcs s t = Deq_waits \<Longrightarrow> wait_while (pcq_current_size (shared s) = 0) = Inr () \<Longrightarrow>
    lock_head (shared s) = Inr q \<Longrightarrow> pcq_step s (goes t Deq_takes q s)"
| deq_take: "pcs s t = Deq_takes \<Longrightarrow> take_elem (shared s) = Inr (x, q) \<Longrightarrow>
    pcq_step s ((goes t (Deq_leaves x) (q\<lparr>pcq_popper_condvar_lock := False\<rparr>) s)\<lparr>taken_log := taken_log s @ [x]\<rparr>)"
| deq_leave: "pcs s t = Deq_leaves x \<Longrightarrow> pcq_step s (goes t Idle ((shared s)\<lparr>pcq_head_lock := False\<rparr>) s)"

inductive pcq_reach :: "size_t \<Rightarrow> pcq_system \<Rightarrow> bool" for c :: size_t where
  start: "pcq_create (Some g) c junk = (r, q) \<Longrightarrow>
    pcq_reach c \<lparr>shared = q, pcs = (\<lambda>_. Idle), put_log = [], taken_log = []\<rparr>"
| go: "pcq_reach c s \<Longrightarrow> pcq_step s s' \<Longrightarrow> pcq_reach c s'"

text \<open>A thread that is alone runs a call through these steps exactly as the sequential model does.\<close>

lemma enqueue_steps:
  assumes "pcs s t = Idle" and "pcq_enqueue x (shared s) = Inr (r, q')"
  shows "pcq_step\<^sup>*\<^sup>* s (s\<lparr>shared := q', put_log := put_log s @ [x]\<rparr>)"
proof -
  obtain q1 q2 q3 where q:
    "lock_size (shared s) = Inr q1" "wait_while (pcq_current_size q1 = pcq_capacity q1) = Inr ()"
    "lock_tail q1 = Inr q2" "put_elem x q2 = Inr q3" "q' = q3\<lparr>pcq_current_size_lock := False, pcq_tail_lock := False\<rparr>"
    using assms(2) by (auto simp: pcq_enqueue_def res_iff)
  let ?s1 = "goes t (Enq_waits x) q1 s"
  let ?s2 = "goes t (Enq_stores x) q2 ?s1"
  let ?s3 = "(goes t Enq_leaves (q3\<lparr>pcq_current_size_lock := False\<rparr>) ?s2)\<lparr>put_log := put_log ?s2 @ [x]\<rparr>"
  let ?s4 = "goes t Idle ((shared ?s3)\<lparr>pcq_tail_lock := False\<rparr>) ?s3"
  have "pcq_step s ?s1" using assms(1) q(1) by (rule enq_lock)
  moreover have "pcq_step ?s1 ?s2" by (rule enq_enter) (simp_all add: goes_def q)
  moreover have "pcq_step ?s2 ?s3" by (rule enq_store) (simp_all add: goes_def q)
  moreover have "pcq_step ?s3 ?s4" by (rule enq_leave) (simp add: goes_def)
  ultimately have "pcq_step\<^sup>*\<^sup>* s ?s4" by (meson r_into_rtranclp rtranclp_trans)
  moreover have "?s4 = s\<lparr>shared := q', put_log := put_log s @ [x]\<rparr>"
    using assms(1) by (simp add: goes_def q(5) fun_upd_idem)
  ultimately show ?thesis by simp
qed

lemma dequeue_steps:
  assumes "pcs s t = Idle" and "pcq_dequeue (shared s) = Inr (x, q')"
  shows "pcq_step\<^sup>*\<^sup>* s (s\<lparr>shared := q', taken_log := taken_log s @ [x]\<rparr>)"
proof -
  obtain q1 q2 q3 where q:
    "lock_size (shared s) = Inr q1" "wait_while (pcq_current_size q1 = 0) = Inr ()"
    "lock_head q1 = Inr q2" "take_elem q2 = Inr (x, q3)" "q' = q3\<lparr>pcq_popper_condvar_lock := False, pcq_head_lock := False\<rparr>"
    using assms(2) by (auto simp: pcq_dequeue_def res_iff)
  let ?s1 = "goes t Deq_waits q1 s"
  let ?s2 = "goes t Deq_takes q2 ?s1"
  let ?s3 = "(goes t (Deq_leaves x) (q3\<lparr>pcq_popper_condvar_lock := False\<rparr>) ?s2)\<lparr>taken_log := taken_log ?s2 @ [x]\<rparr>"
  let ?s4 = "goes t Idle ((shared ?s3)\<lparr>pcq_head_lock := False\<rparr>) ?s3"
  have "pcq_step s ?s1" using assms(1) q(1) by (rule deq_lock)
  moreover have "pcq_step ?s1 ?s2" by (rule deq_enter) (simp_all add: goes_def q)
  moreover have "pcq_step ?s2 ?s3" by (rule deq_take) (simp_all add: goes_def q)
  moreover have "pcq_step ?s3 ?s4" by (rule deq_leave [where x = x]) (simp add: goes_def)
  ultimately have "pcq_step\<^sup>*\<^sup>* s ?s4" by (meson r_into_rtranclp rtranclp_trans)
  moreover have "?s4 = s\<lparr>shared := q', taken_log := taken_log s @ [x]\<rparr>"
    using assms(1) by (simp add: goes_def q(5) fun_upd_idem)
  ultimately show ?thesis by simp
qed

subsubsection \<open>The invariant\<close>

text \<open>A thread is inside when the lock of the size is its own; \<open>stored\<close> is \<open>filled\<close> without locks.\<close>

fun inside :: "thread_pc \<Rightarrow> bool" where
  "inside (Enq_waits x) = True"
| "inside (Enq_stores x) = True"
| "inside Deq_waits = True"
| "inside Deq_takes = True"
| "inside _ = False"

definition unlocked :: "pc_queue_t \<Rightarrow> pc_queue_t" where
  "unlocked q = q\<lparr>pcq_current_size_lock := False, pcq_head_lock := False, pcq_tail_lock := False,
     pcq_pusher_condvar_lock := False, pcq_popper_condvar_lock := False\<rparr>"

definition stored :: "pc_queue_t \<Rightarrow> elem list \<Rightarrow> bool" where
  "stored q xs \<longleftrightarrow> filled (unlocked q) xs"

lemma unlocked_simps [simp]:
  "unlocked (q\<lparr>pcq_current_size_lock := b\<rparr>) = unlocked q" "unlocked (q\<lparr>pcq_head_lock := b\<rparr>) = unlocked q"
  "unlocked (q\<lparr>pcq_tail_lock := b\<rparr>) = unlocked q" "unlocked (q\<lparr>pcq_popper_condvar_lock := b\<rparr>) = unlocked q"
  "pcq_capacity (unlocked q) = pcq_capacity q" "pcq_buffer (unlocked q) = pcq_buffer q"
  "pcq_tail (unlocked q) = pcq_tail q" "pcq_head (unlocked q) = pcq_head q"
  "pcq_current_size (unlocked q) = pcq_current_size q"
  by (simp_all add: unlocked_def)

text \<open>What the two critical sections do to a queue that holds \<open>xs\<close>.\<close>

lemma put_elem_stored:
  assumes "stored q xs" and "put_elem x q = Inr q'" and "pcq_capacity q \<noteq> - 1"
  shows "stored q' (xs @ [x]) \<and> pcq_capacity q' = pcq_capacity q \<and>
         pcq_current_size_lock q' = pcq_current_size_lock q"
proof -
  obtain b where "pcq_buffer (unlocked q) = Some b" and b: "length b = unat (pcq_capacity (unlocked q)) div 8"
    using assms(1) unfolding stored_def by (rule filledD)
  let ?tail = "if pcq_tail q = pcq_capacity q then 0 else pcq_tail q + 1"
  have buf: "pcq_buffer q = Some b" using \<open>pcq_buffer (unlocked q) = Some b\<close> by simp
  then have t: "uint ?tail < int (length b)"
    and q': "q' = q\<lparr>pcq_tail := ?tail, pcq_buffer := Some (b[nat (uint ?tail) := x]),
                   pcq_current_size := pcq_current_size q + 1\<rparr>"
    using assms(2) by (auto simp: put_elem_def Let_def res_iff)
  have "0 \<le> uint ?tail" by simp
  then have "b \<noteq> []" using t by auto
  then have pos: "0 < unat (pcq_capacity (unlocked q))" using b by (cases "unat (pcq_capacity q)") auto
  note e = enqueue_tail [OF assms(1) [unfolded stored_def] pos]
  have tail: "?tail = of_nat (length xs)" and u: "uint ?tail = int (length xs)"
    using e assms(3) by simp_all
  have len: "length xs < unat (pcq_capacity (unlocked q)) div 8" using t b unfolding u by simp
  have "pcq_enqueue x (unlocked q) = Inr (0, unlocked q')"
    using e assms(3) buf t q' unfolding u by (simp add: pcq_enqueue_def lock_size_def wait_while_def
        lock_tail_def put_elem_def unlocked_def Let_def res_iff)
  then show ?thesis
    using enqueue_filled [OF assms(1) [unfolded stored_def] len, of x] assms(3) q' by (simp add: stored_def)
qed

lemma take_elem_stored:
  assumes "stored q xs" and "take_elem q = Inr (x, q')" and "pcq_current_size q \<noteq> 0"
  shows "(\<exists>ys. xs = x # ys) \<and> pcq_capacity q' = pcq_capacity q \<and> pcq_current_size_lock q' = pcq_current_size_lock q"
proof -
  obtain b where "pcq_buffer (unlocked q) = Some b" "take (length xs) b = xs" "pcq_head (unlocked q) = 0"
    "pcq_current_size (unlocked q) = of_nat (length xs)"
    using assms(1) unfolding stored_def by (rule filledD)
  moreover from this have "xs \<noteq> []" using assms(3) by auto
  ultimately show ?thesis using assms(2)
    by (cases b; cases xs) (auto simp: take_elem_def res_iff Let_def split: if_splits)
qed

definition pcq_inv :: "size_t \<Rightarrow> pcq_system \<Rightarrow> bool" where
  "pcq_inv c s \<longleftrightarrow> pcq_capacity (shared s) = c \<and>
     (\<forall>t u. inside (pcs s t) \<and> inside (pcs s u) \<longrightarrow> t = u) \<and>
     (pcq_current_size_lock (shared s) \<longleftrightarrow> (\<exists>t. inside (pcs s t)) \<or> taken_log s \<noteq> []) \<and>
     (\<forall>t. pcs s t = Deq_takes \<longrightarrow> pcq_current_size (shared s) \<noteq> 0) \<and>
     (if taken_log s = [] then stored (shared s) (put_log s)
      else (\<forall>t. \<not> inside (pcs s t)) \<and> put_log s \<noteq> [] \<and> taken_log s = [hd (put_log s)])"

lemma stored_locks [simp]:
  "stored (q\<lparr>pcq_current_size_lock := b\<rparr>) xs = stored q xs" "stored (q\<lparr>pcq_head_lock := b\<rparr>) xs = stored q xs"
  "stored (q\<lparr>pcq_tail_lock := b\<rparr>) xs = stored q xs" "stored (q\<lparr>pcq_popper_condvar_lock := b\<rparr>) xs = stored q xs"
  by (simp_all add: stored_def)

lemma pcq_inv_init:
  assumes "pcq_create (Some g) c junk = (r, q)"
  shows "pcq_inv c \<lparr>shared = q, pcs = (\<lambda>_. Idle), put_log = [], taken_log = []\<rparr>"
proof -
  have "filled q []" "pcq_capacity q = c" using create_filled [of g c junk q] assms by simp_all
  moreover have "unlocked q = q"
  proof -
    have "q = snd (pcq_create (Some g) c junk)" using assms by simp
    then show ?thesis by (simp add: pcq_create_def unlocked_def Let_def)
  qed
  ultimately show ?thesis by (simp add: pcq_inv_def stored_def filled_def)
qed

lemma pcq_inv_inside:
  assumes "pcq_inv c s" and "inside (pcs s t)"
  shows "taken_log s = []" and "stored (shared s) (put_log s)" and "pcq_capacity (shared s) = c"
    and "pcq_current_size_lock (shared s)" and "u \<noteq> t \<Longrightarrow> \<not> inside (pcs s u)"
    and "u \<noteq> t \<Longrightarrow> pcs s u \<noteq> Deq_takes"
    and "pcs s t = Deq_takes \<Longrightarrow> pcq_current_size (shared s) \<noteq> 0"
proof -
  show "pcq_capacity (shared s) = c" using assms by (simp add: pcq_inv_def)
  show no: "taken_log s = []" using assms by (auto simp: pcq_inv_def split: if_splits)
  show "stored (shared s) (put_log s)" "pcq_current_size_lock (shared s)"
    using assms no unfolding pcq_inv_def by (simp, blast)
  show out: "\<not> inside (pcs s u)" if "u \<noteq> t" using assms that unfolding pcq_inv_def by blast
  show "pcs s u \<noteq> Deq_takes" if "u \<noteq> t" using out [OF that] by auto
  show "pcq_current_size (shared s) \<noteq> 0" if "pcs s t = Deq_takes"
    using assms that unfolding pcq_inv_def by blast
qed

text \<open>A thread that is not inside and only releases another lock.\<close>

lemma pcq_inv_leave:
  assumes "pcq_inv c s" and "\<not> inside (pcs s t)" and "pcq_capacity q = pcq_capacity (shared s)"
    and "pcq_current_size_lock q = pcq_current_size_lock (shared s)"
    and "pcq_current_size q = pcq_current_size (shared s)"
    and "stored q (put_log s) = stored (shared s) (put_log s)"
  shows "pcq_inv c (goes t Idle q s)"
proof -
  have "inside (((pcs s)(t := Idle)) u) = inside (pcs s u)" for u using assms(2) by simp
  moreover have "((pcs s)(t := Idle)) u = Deq_takes \<longleftrightarrow> pcs s u = Deq_takes" for u using assms(2) by auto
  ultimately show ?thesis using assms(1,3-6) by (simp add: pcq_inv_def goes_def del: fun_upd_apply)
qed

lemma pcq_inv_step:
  assumes "pcq_step s s'" and "pcq_inv c s" and "c \<noteq> - 1"
  shows "pcq_inv c s'"
  using assms
proof (cases rule: pcq_step.cases)
  case (enq_lock t q x)
  then show ?thesis using assms(2) by (auto simp: pcq_inv_def goes_def lock_size_def split: if_splits)
next
  case (deq_lock t q)
  then show ?thesis using assms(2) by (auto simp: pcq_inv_def goes_def lock_size_def split: if_splits)
next
  case (enq_enter t x q)
  then have "inside (pcs s t)" by simp
  note facts = pcq_inv_inside [OF assms(2) this]
  show ?thesis using enq_enter facts
    by (auto simp: pcq_inv_def goes_def lock_tail_def split: if_splits)
next
  case (deq_enter t q)
  then have "inside (pcs s t)" by simp
  note facts = pcq_inv_inside [OF assms(2) this]
  show ?thesis using deq_enter facts
    by (auto simp: pcq_inv_def goes_def lock_head_def wait_while_def split: if_splits)
next
  case (enq_store t x q)
  then have "inside (pcs s t)" by simp
  note facts = pcq_inv_inside [OF assms(2) this]
  with put_elem_stored [OF facts(2) enq_store(3)] assms(3) have
    "stored q (put_log s @ [x])" "pcq_capacity q = c" by simp_all
  then show ?thesis using enq_store facts by (simp add: pcq_inv_def goes_def)
next
  case (deq_take t x q)
  then have t: "inside (pcs s t)" by simp
  note facts = pcq_inv_inside [OF assms(2) this]
  from take_elem_stored [OF facts(2) deq_take(3)] facts deq_take(2) obtain ys where
    "put_log s = x # ys" "pcq_capacity q = c" "pcq_current_size_lock q" by auto
  then show ?thesis using deq_take facts by (simp add: pcq_inv_def goes_def)
next
  case (enq_leave t)
  then show ?thesis using assms(2) by (simp add: pcq_inv_leave)
next
  case (deq_leave t x)
  then show ?thesis using assms(2) by (simp add: pcq_inv_leave)
qed

lemma pcq_reach_inv: "pcq_reach c s \<Longrightarrow> c \<noteq> - 1 \<Longrightarrow> pcq_inv c s"
  by (induction rule: pcq_reach.induct) (blast intro: pcq_inv_init pcq_inv_step)+

lemma reach_steps: "pcq_step\<^sup>*\<^sup>* s s' \<Longrightarrow> pcq_reach c s \<Longrightarrow> pcq_reach c s'"
  by (induction rule: rtranclp_induct) (auto intro: go)

text \<open>Once an element was taken, no step stores or takes one.\<close>

lemma taken_step:
  assumes "pcq_step s s'" and "pcq_inv c s" and "taken_log s \<noteq> []"
  shows "put_log s' = put_log s \<and> taken_log s' = taken_log s"
proof -
  have "\<not> inside (pcs s t)" for t using assms(2,3) by (simp add: pcq_inv_def)
  then have "pcs s t \<noteq> Enq_stores x" "pcs s t \<noteq> Deq_takes" for t x by (metis inside.simps)+
  with assms(1) show ?thesis by (cases rule: pcq_step.cases) (auto simp: goes_def)
qed

lemma taken_steps:
  assumes "pcq_step\<^sup>*\<^sup>* s s'" and "pcq_inv c s" and "taken_log s \<noteq> []" and "c \<noteq> - 1"
  shows "put_log s' = put_log s \<and> taken_log s' = taken_log s \<and> pcq_inv c s'"
  using assms
proof (induction rule: rtranclp_induct)
  case (step s1 s2)
  then show ?case using taken_step [of s1 s2 c] pcq_inv_step [of s1 s2 c] by simp
qed simp

subsection \<open>Properties\<close>

text \<open>For the witnesses: a queue made with capacity 24, and the system that starts with it.\<close>

definition demo_queue :: pc_queue_t where
  "demo_queue = snd (pcq_create (Some (\<lambda>_. 5)) 24
     \<lparr>pcq_buffer = None, pcq_capacity = 0, pcq_current_size_lock = True, pcq_current_size = 3,
      pcq_head_lock = True, pcq_head = 9, pcq_tail_lock = False, pcq_tail = 4,
      pcq_pusher_condvar_lock = True, pcq_popper_condvar_lock = False\<rparr>)"

lemma demo_filled: "filled demo_queue []" "pcq_capacity demo_queue = 24"
  using create_filled unfolding demo_queue_def by blast+

definition demo_system :: pcq_system where
  "demo_system = \<lparr>shared = demo_queue, pcs = (\<lambda>_. Idle), put_log = [], taken_log = []\<rparr>"

lemma demo_reach: "pcq_reach 24 demo_system"
proof -
  have "pcq_create (Some (\<lambda>_. 5)) 24
     \<lparr>pcq_buffer = None, pcq_capacity = 0, pcq_current_size_lock = True, pcq_current_size = 3,
      pcq_head_lock = True, pcq_head = 9, pcq_tail_lock = False, pcq_tail = 4,
      pcq_pusher_condvar_lock = True, pcq_popper_condvar_lock = False\<rparr> = (0, demo_queue)"
    by (simp add: demo_queue_def pcq_create_def Let_def)
  then show ?thesis unfolding demo_system_def by (rule start)
qed

text \<open>A reachable system in which 7 and 8 were stored and 7 was taken.\<close>

lemma demo_taken:
  "\<exists>s. pcq_reach 24 s \<and> put_log s = [7, 8] \<and> taken_log s = [7]"
proof -
  obtain q1 where q1: "pcq_enqueue 7 demo_queue = Inr (0, q1)" "filled q1 [7]" "pcq_capacity q1 = 24"
    using enqueue_filled [OF demo_filled(1), of 7] demo_filled(2) by auto
  obtain q2 where q2: "pcq_enqueue 8 q1 = Inr (0, q2)" "filled q2 [7, 8]" "pcq_capacity q2 = 24"
    using enqueue_filled [OF q1(2), of 8] q1(3) by auto
  obtain q3 where q3: "pcq_dequeue q2 = Inr (7, q3)" using dequeue_filled [OF q2(2)] q2(3) by auto
  have "pcq_step\<^sup>*\<^sup>* demo_system (demo_system\<lparr>shared := q1, put_log := [7]\<rparr>)"
    using enqueue_steps [of demo_system 0 7 0 q1] q1(1) by (simp add: demo_system_def)
  moreover have "pcq_step\<^sup>*\<^sup>* (demo_system\<lparr>shared := q1, put_log := [7]\<rparr>)
      (demo_system\<lparr>shared := q2, put_log := [7, 8]\<rparr>)"
    using enqueue_steps [of "demo_system\<lparr>shared := q1, put_log := [7]\<rparr>" 1 8 0 q2] q2(1)
    by (simp add: demo_system_def)
  moreover have "pcq_step\<^sup>*\<^sup>* (demo_system\<lparr>shared := q2, put_log := [7, 8]\<rparr>)
      (demo_system\<lparr>shared := q3, put_log := [7, 8], taken_log := [7]\<rparr>)"
    using dequeue_steps [of "demo_system\<lparr>shared := q2, put_log := [7, 8]\<rparr>" 2 7 q3] q3
    by (simp add: demo_system_def)
  ultimately have "pcq_step\<^sup>*\<^sup>* demo_system (demo_system\<lparr>shared := q3, put_log := [7, 8], taken_log := [7]\<rparr>)"
    by (meson rtranclp_trans)
  from reach_steps [OF this demo_reach] show ?thesis
    by (rule exI [where x = "demo_system\<lparr>shared := q3, put_log := [7, 8], taken_log := [7]\<rparr>", OF conjI]) simp
qed

text \<open>C9: However the calls of any number of threads interleave on a fresh queue, at most one
  thread is between the lock and the unlock of the size; and over the whole run at most one
  element comes out of the queue, which is the one that was stored first.\<close>

theorem pcq_exclusion_and_order:
  assumes "pcq_reach c s" and "c \<noteq> - 1"
  shows "(\<forall>t u. inside (pcs s t) \<and> inside (pcs s u) \<longrightarrow> t = u) \<and>
         (taken_log s \<noteq> [] \<longrightarrow> (\<exists>x xs. put_log s = x # xs \<and> taken_log s = [x]))"
proof -
  have inv: "pcq_inv c s" using assms by (rule pcq_reach_inv)
  then have "\<exists>x xs. put_log s = x # xs \<and> taken_log s = [x]" if "taken_log s \<noteq> []"
    using that unfolding pcq_inv_def by (cases "put_log s") auto
  then show ?thesis using inv unfolding pcq_inv_def by blast
qed

theorem pcq_exclusion_and_order_witness:
  "\<exists>s. pcq_reach 24 s \<and> (\<exists>x xs. put_log s = x # xs \<and> taken_log s = [x]) \<and>
       (\<forall>t u. inside (pcs s t) \<and> inside (pcs s u) \<longrightarrow> t = u)"
proof -
  obtain s where s: "pcq_reach 24 s" "put_log s = [7, 8]" "taken_log s = [7]" using demo_taken by blast
  have "(- 1 :: size_t) \<noteq> 24" by simp
  with pcq_exclusion_and_order [OF s(1)] s show ?thesis by (intro exI [of _ s]) auto
qed

text \<open>C28: Once one element was taken, no thread ever stores or takes another: \<open>pcq_dequeue\<close>
  returns with the lock of the size held.\<close>

theorem pcq_dead_after_dequeue:
  assumes "pcq_reach c s" and "c \<noteq> - 1" and "taken_log s \<noteq> []" and "pcq_step\<^sup>*\<^sup>* s s'"
  shows "put_log s' = put_log s \<and> taken_log s' = taken_log s"
  using taken_steps [OF assms(4) pcq_reach_inv [OF assms(1,2)] assms(3,2)] by simp

theorem pcq_dead_after_dequeue_witness:
  "\<exists>s. pcq_reach 24 s \<and> taken_log s = [7] \<and> (\<forall>s'. pcq_step\<^sup>*\<^sup>* s s' \<longrightarrow> put_log s' = [7, 8])"
proof -
  obtain s where s: "pcq_reach 24 s" "put_log s = [7, 8]" "taken_log s = [7]" using demo_taken by blast
  have "(24 :: size_t) \<noteq> - 1" "taken_log s \<noteq> []" using s(3) by simp_all
  from pcq_dead_after_dequeue [OF s(1) this] s show ?thesis by (intro exI [of _ s]) auto
qed

text \<open>On a fresh queue of capacity \<open>c\<close>, up to \<open>c div 8\<close> calls of \<open>pcq_enqueue\<close> return, and the
  elements stand in the buffer in the order of the calls.\<close>

theorem pcq_enqueue_order:
  assumes "pcq_create (Some g) c junk = (r, q)" and "c \<noteq> - 1" and "length xs \<le> unat c div 8"
  shows "\<exists>q' b. enqueue_all xs q = Inr q' \<and> pcq_buffer q' = Some b \<and> take (length xs) b = xs \<and>
           pcq_current_size q' = of_nat (length xs) \<and> \<not> pcq_current_size_lock q' \<and> \<not> pcq_tail_lock q'"
proof -
  have "filled q []" "pcq_capacity q = c" using create_filled [of g c junk q] assms(1) by simp_all
  from enqueue_all_filled [OF this(1), of xs] this(2) assms(2,3) obtain q' where
    q': "enqueue_all xs q = Inr q'" "filled q' xs" by auto
  from q'(2) obtain b where "pcq_buffer q' = Some b" "take (length xs) b = xs" "\<not> pcq_current_size_lock q'"
    "\<not> pcq_tail_lock q'" "pcq_current_size q' = of_nat (length xs)" by (rule filledD)
  with q'(1) show ?thesis by blast
qed

theorem pcq_enqueue_order_witness:
  "\<exists>q' b. enqueue_all [4, 9, 6] demo_queue = Inr q' \<and> pcq_buffer q' = Some b \<and> take 3 b = [4, 9, 6]"
proof -
  have "pcq_create (Some (\<lambda>_. 5)) 24
     \<lparr>pcq_buffer = None, pcq_capacity = 0, pcq_current_size_lock = True, pcq_current_size = 3,
      pcq_head_lock = True, pcq_head = 9, pcq_tail_lock = False, pcq_tail = 4,
      pcq_pusher_condvar_lock = True, pcq_popper_condvar_lock = False\<rparr> = (0, demo_queue)"
    by (simp add: demo_queue_def pcq_create_def Let_def)
  note order = pcq_enqueue_order [OF this, of "[4, 9, 6]"]
  have three: "length [4, 9, 6 :: elem] = 3" by simp
  have "(24 :: size_t) \<noteq> - 1" "3 \<le> unat (24 :: size_t) div 8" by simp_all
  from order [unfolded three, OF this] show ?thesis by blast
qed

text \<open>The next call after \<open>c div 8\<close> elements writes past the end of the buffer, although the
  queue was created for \<open>c\<close> elements: the buffer was allocated with \<open>sizeof (void)\<close>.\<close>

theorem pcq_enqueue_past_buffer:
  assumes "filled q xs" and "length xs = unat (pcq_capacity q) div 8" and "0 < unat (pcq_capacity q)"
    and "pcq_capacity q \<noteq> - 1"
  shows "pcq_enqueue x q = Inl Out_of_bounds"
  by (rule enqueue_overflow [OF assms])

theorem pcq_enqueue_past_buffer_witness:
  "\<exists>q. enqueue_all [1, 2, 3] demo_queue = Inr q \<and> pcq_enqueue 4 q = Inl Out_of_bounds"
proof -
  obtain q where q: "enqueue_all [1, 2, 3] demo_queue = Inr q" "filled q [1, 2, 3]" "pcq_capacity q = 24"
    using enqueue_all_filled [OF demo_filled(1), of "[1, 2, 3]"] demo_filled(2) by auto
  with pcq_enqueue_past_buffer [OF q(2), of 4] show ?thesis by simp
qed

text \<open>The first call of \<open>pcq_dequeue\<close> returns the element stored first, moves the head by two
  places, and makes every later call of either operation block.\<close>

theorem pcq_dequeue_once:
  assumes "filled q (x # xs)" and "pcq_capacity q \<noteq> - 1"
  shows "\<exists>q'. pcq_dequeue q = Inr (x, q') \<and> pcq_head q' = 2 \<and> pcq_current_size q' = of_nat (length xs) \<and>
           pcq_dequeue q' = Inl Deadlock \<and> (\<forall>y. pcq_enqueue y q' = Inl Deadlock)"
  using dequeue_filled [OF assms] locked_blocks by blast

theorem pcq_dequeue_once_witness:
  "\<exists>q q'. enqueue_all [1, 2, 3] demo_queue = Inr q \<and> pcq_dequeue q = Inr (1, q') \<and> pcq_dequeue q' = Inl Deadlock"
proof -
  obtain q where q: "enqueue_all [1, 2, 3] demo_queue = Inr q" "filled q [1, 2, 3]" "pcq_capacity q = 24"
    using enqueue_all_filled [OF demo_filled(1), of "[1, 2, 3]"] demo_filled(2) by auto
  with pcq_dequeue_once [OF q(2)] show ?thesis by auto
qed

text \<open>A full queue blocks a writer and an empty one a reader, for ever (no signal wakes them).\<close>

theorem pcq_waits_for_ever:
  shows "(pcq_current_size q = pcq_capacity q \<longrightarrow> pcq_enqueue x q = Inl Deadlock) \<and>
         (pcq_current_size q = 0 \<longrightarrow> pcq_dequeue q = Inl Deadlock)"
  by (simp add: pcq_enqueue_def pcq_dequeue_def lock_size_def wait_while_def)

theorem pcq_waits_for_ever_witness: "pcq_dequeue demo_queue = Inl Deadlock"
  using pcq_waits_for_ever [of demo_queue 0] demo_filled by (simp add: filled_def)



end
