(* ===== verification/Posix.thy ===== *)
theory Posix
  imports Protocol BoxList
begin

text \<open>
  The environment of a process of the program: the broker and the three clients. System calls are
  the environment's: what each \<open>open\<close>, \<open>read\<close>, \<open>write\<close> and \<open>malloc\<close> will return is a script in
  the state, consumed in order, each entry with the value \<open>errno\<close> has after the call. A call
  whose script has run out is \<open>Waiting\<close>. The state records what was written to pipes and printed,
  which descriptors are open and whether the named pipe that the process makes is there. The
  state of each program extends the record \<open>io\<close>.
\<close>

subsection \<open>State\<close>

definition EINTR :: int where "EINTR = 4"
definition EAGAIN :: int where "EAGAIN = 11"
definition EEXIST :: int where "EEXIST = 17"
definition SIGINT :: int where "SIGINT = 2"
definition BOX_SIZE :: size_t where "BOX_SIZE = 1024"

text \<open>One \<open>read\<close>: the bytes delivered (none at end of file) or \<open>None\<close> when it returns \<open>-1\<close>, and
  whether \<open>SIGINT\<close> arrived meanwhile.\<close>

record io_event =
  ev_data :: "byte list option"
  ev_errno :: int
  ev_sigint :: bool

text \<open>\<open>io_stack\<close> is what uninitialised local arrays hold, \<open>io_fifo\<close> whether the pipe the process makes
  is there, \<open>io_sent\<close> everything written to pipes; \<open>io_out\<close> and \<open>io_err\<close> are the texts that the
  calls of \<open>printf\<close> and \<open>fprintf\<close> printed on \<open>stdout\<close> and \<open>stderr\<close>.\<close>

record io =
  io_fifo :: bool
  io_fds :: "int list"
  io_sent :: "(int \<times> byte list) list"
  io_out :: "byte list list"
  io_err :: "byte list list"
  io_errno :: int
  io_opens :: "(int \<times> int) list"
  io_reads :: "io_event list"
  io_writes :: "(int \<times> int) list"
  io_boxes :: box_store
  io_mallocs :: "(nat option \<times> box_node) list"
  io_stack :: "nat \<Rightarrow> byte"

subsection \<open>System calls\<close>

definition sys_open :: "'a io_scheme \<Rightarrow> (int \<times> 'a io_scheme) res" where
  "sys_open s =
     (case io_opens s of
        [] \<Rightarrow> Inl Waiting
      | (fd, e) # rest \<Rightarrow>
          Inr (fd, s\<lparr>io_opens := rest, io_errno := e,
                     io_fds := (if fd = - 1 then io_fds s else fd # io_fds s)\<rparr>))"

definition sys_close :: "int \<Rightarrow> 'a io_scheme \<Rightarrow> 'a io_scheme" where
  "sys_close fd s = s\<lparr>io_fds := remove1 fd (io_fds s)\<rparr>"

definition sys_write :: "int \<Rightarrow> byte list \<Rightarrow> 'a io_scheme \<Rightarrow> (int \<times> 'a io_scheme) res" where
  "sys_write fd bs s =
     (case io_writes s of
        [] \<Rightarrow> Inl Waiting
      | (r, e) # rest \<Rightarrow>
          Inr (r, s\<lparr>io_writes := rest, io_errno := e,
                    io_sent := (if r < 0 then io_sent s else io_sent s @ [(fd, bs)])\<rparr>))"

definition event_ret :: "io_event \<Rightarrow> int" where
  "event_ret ev = (case ev_data ev of None \<Rightarrow> - 1 | Some bs \<Rightarrow> int (length (take sizeof_request bs)))"

definition event_fill :: "io_event \<Rightarrow> request \<Rightarrow> request" where
  "event_fill ev request =
     (case ev_data ev of None \<Rightarrow> request | Some bs \<Rightarrow> read_request (take sizeof_request bs) request)"

subsection \<open>Printing\<close>

definition ascii :: "string \<Rightarrow> byte list" where
  "ascii t = map of_char t"

definition print_out :: "byte list \<Rightarrow> 'a io_scheme \<Rightarrow> 'a io_scheme" where
  "print_out t s = s\<lparr>io_out := io_out s @ [t]\<rparr>"

definition print_err :: "byte list \<Rightarrow> 'a io_scheme \<Rightarrow> 'a io_scheme" where
  "print_err t s = s\<lparr>io_err := io_err s @ [t]\<rparr>"

text \<open>A text with a newline behind it.\<close>

definition err_line :: "string \<Rightarrow> 'a io_scheme \<Rightarrow> 'a io_scheme" where
  "err_line t s = print_err (ascii t @ [10]) s"

text \<open>What \<open>%s\<close> prints of the memory at its argument.\<close>

definition c_text :: "byte list option \<Rightarrow> byte list res" where
  "c_text p =
     (case p of None \<Rightarrow> Inl Null_deref | Some m \<Rightarrow> res_bind (c_strlen m) (\<lambda>n. Inr (take n m)))"

text \<open>A line that ends with a string of the program.\<close>

definition err_line_with :: "string \<Rightarrow> byte list option \<Rightarrow> 'a io_scheme \<Rightarrow> 'a io_scheme res" where
  "err_line_with t p s = res_bind (c_text p) (\<lambda>m. Inr (print_err (ascii t @ m @ [10]) s))"

subsection \<open>Boxes, local arrays and texts\<close>

text \<open>A loop of the box list that never ends is the fault \<open>Diverges\<close>.\<close>

definition total :: "'a res option \<Rightarrow> 'a res" where
  "total r = (case r of None \<Rightarrow> Inl Diverges | Some r \<Rightarrow> r)"

definition new_box ::
  "byte list \<Rightarrow> byte \<Rightarrow> size_t \<Rightarrow> size_t \<Rightarrow> size_t \<Rightarrow> 'a io_scheme \<Rightarrow> (box \<times> 'a io_scheme) res" where
  "new_box name is_last size_of n_pubs n_subs s =
     (case io_mallocs s of
        [] \<Rightarrow> Inl Null_deref
      | (fresh, junk) # rest \<Rightarrow>
          res_bind (newBox_b fresh junk name is_last size_of n_pubs n_subs (io_boxes s)) (\<lambda>(b, st).
            Inr (b, s\<lparr>io_boxes := st, io_mallocs := rest\<rparr>)))"

definition local_array :: "nat \<Rightarrow> 'a io_scheme \<Rightarrow> byte list" where
  "local_array n s = map (io_stack s) [0..<n]"

text \<open>\<open>memset (message + len - 1, 0, MAX_MESSAGE - len)\<close>\<close>

definition clear_tail :: "byte list \<Rightarrow> nat \<Rightarrow> byte list res" where
  "clear_tail message len =
     (if len = 0 then Inl Out_of_bounds
      else res_bind (mem_store (Some message) (len - 1) (replicate (MAX_MESSAGE - len) 0)) (\<lambda>m.
        Inr (case m of Some d \<Rightarrow> d | None \<Rightarrow> message)))"

text \<open>\<open>strcpy (message, text)\<close>\<close>

definition copy_text :: "byte list \<Rightarrow> byte list \<Rightarrow> byte list res" where
  "copy_text text message =
     res_bind (c_strcpy text) (\<lambda>bs.
     res_bind (mem_store (Some message) 0 bs) (\<lambda>m. Inr (case m of Some d \<Rightarrow> d | None \<Rightarrow> message)))"

definition zero_request :: request where
  "zero_request = \<lparr>rq_code = 0, rq_session_pipe = replicate MAX_PIPE_NAME 0,
     rq_box_name = replicate MAX_BOX_NAME 0, rq_return_code = 0,
     rq_error_message = replicate MAX_MESSAGE 0, rq_boxa = 0\<rparr>"


subsection \<open>Facts\<close>

lemma total_simps [simp]: "total (Some r) = r" "total None = Inl Diverges"
  by (simp_all add: total_def)

text \<open>Most requests the program builds have null pointers for the pipe and the box name.\<close>

lemma newRequest_no_names [simp]: "newRequest c None None rc em = Inl Null_deref"
  by (simp add: newRequest_def)

text \<open>The state after the environment answered an \<open>open\<close>.\<close>

definition after_open :: "'a io_scheme \<Rightarrow> 'a io_scheme" where
  "after_open s = s\<lparr>io_opens := tl (io_opens s), io_errno := snd (hd (io_opens s)),
     io_fds := (if fst (hd (io_opens s)) = - 1 then io_fds s else fst (hd (io_opens s)) # io_fds s)\<rparr>"

lemma sys_open_eq:
  "sys_open s = (if io_opens s = [] then Inl Waiting else Inr (fst (hd (io_opens s)), after_open s))"
  by (cases "io_opens s") (auto simp: sys_open_def after_open_def)

lemma io_frame [simp]:
  "io_sent (after_open s) = io_sent s" "io_boxes (after_open s) = io_boxes s" "io_mallocs (after_open s) = io_mallocs s"
  "io_reads (after_open s) = io_reads s" "io_writes (after_open s) = io_writes s"
  "io_sent (sys_close fd s) = io_sent s" "io_boxes (sys_close fd s) = io_boxes s"
  by (simp_all add: after_open_def sys_close_def)

text \<open>Printing changes nothing else.\<close>

lemma print_frame [simp]:
  "io_sent (print_out t s) = io_sent s" "io_sent (print_err t s) = io_sent s"
  "io_boxes (print_out t s) = io_boxes s" "io_boxes (print_err t s) = io_boxes s"
  "io_errno (print_out t s) = io_errno s" "io_errno (print_err t s) = io_errno s"
  "io_opens (print_out t s) = io_opens s" "io_opens (print_err t s) = io_opens s"
  "io_reads (print_out t s) = io_reads s" "io_reads (print_err t s) = io_reads s"
  "io_writes (print_out t s) = io_writes s" "io_writes (print_err t s) = io_writes s"
  "io_fds (print_out t s) = io_fds s" "io_fds (print_err t s) = io_fds s"
  "io_out (print_err t s) = io_out s" "io_out (print_out t s) = io_out s @ [t]"
  "io_err (print_out t s) = io_err s" "io_err (print_err t s) = io_err s @ [t]"
  by (simp_all add: print_out_def print_err_def)

lemma take_cstr: "take (length (cstr m)) m = cstr m"
  unfolding cstr_def by (rule takeWhile_eq_take [symmetric])

lemma c_text_terminated: "terminated m \<Longrightarrow> c_text (Some m) = Inr (cstr m)"
  by (simp add: c_text_def c_strlen_terminated take_cstr)

lemma err_line_with_terminated:
  "terminated m \<Longrightarrow> err_line_with t (Some m) s = Inr (print_err (ascii t @ cstr m @ [10]) s)"
  by (simp add: err_line_with_def c_text_terminated)

lemma copy_text_ok:
  assumes "terminated text" and "cstr text \<noteq> []" and "length (cstr text) < length message" and "length message = MAX_MESSAGE"
  shows "\<exists>m m'. copy_text text message = Inr m \<and> c_strlen m = Inr (length (cstr text)) \<and>
           clear_tail m (length (cstr text)) = Inr m'"
proof -
  let ?m = "overwrite 0 (cstr text @ [0]) message"
  have "?m = cstr text @ 0 # drop (Suc (length (cstr text))) message" by (simp add: overwrite_def)
  then have "c_strlen ?m = Inr (length (cstr text))" by (simp add: c_strlen_terminated)
  then show ?thesis using assms by (simp add: copy_text_def c_strcpy_terminated clear_tail_def)
qed

subsection \<open>Reasoning about what is returned\<close>

definition returns :: "('a \<Rightarrow> bool) \<Rightarrow> 'a res \<Rightarrow> bool" where
  "returns P r \<longleftrightarrow> (\<forall>x. r = Inr x \<longrightarrow> P x)"

named_theorems returns_rules \<open>rules for what a sequenced call returns\<close>

lemma returns_basic [returns_rules]:
  "returns P (Inl e)"
  "P x \<Longrightarrow> returns P (Inr x)"
  "(c \<Longrightarrow> returns P a) \<Longrightarrow> (\<not> c \<Longrightarrow> returns P b) \<Longrightarrow> returns P (if c then a else b)"
  "(\<And>u v. p = (u, v) \<Longrightarrow> returns P (g u v)) \<Longrightarrow> returns P (case p of (u, v) \<Rightarrow> g u v)"
  "(\<And>y. y = v \<Longrightarrow> returns P (h y)) \<Longrightarrow> returns P (Let v h)"
  by (cases p; auto simp: returns_def Let_def)+

lemma returns_bind: "returns Q r \<Longrightarrow> (\<And>x. Q x \<Longrightarrow> returns P (f x)) \<Longrightarrow> returns P (res_bind r f)"
  by (auto simp: returns_def res_iff)

lemma returns_any: "(\<And>x. returns P (f x)) \<Longrightarrow> returns P (res_bind r f)"
  by (auto simp: returns_def res_iff)

lemma returns_mono: "returns Q r \<Longrightarrow> (\<And>x. Q x \<Longrightarrow> P x) \<Longrightarrow> returns P r"
  by (auto simp: returns_def)

lemma returnsD: "returns P r \<Longrightarrow> r = Inr x \<Longrightarrow> P x"
  by (simp add: returns_def)

lemma bind_request: "returns P (res_bind (newRequest c None None rc em) f)"
  by (simp add: returns_def)

end
