(* ===== verification/Mbroker.thy ===== *)
theory Mbroker
  imports TfsProps Posix PcQueue
begin

text \<open>
  The broker, \<open>mbroker/mbroker.c\<close>: the loop that reads requests from the register pipe, the
  \<open>selector\<close>, one handler per request code, and \<open>main\<close>. The environment is that of \<open>Posix\<close>.
\<close>

subsection \<open>State\<close>

text \<open>The global variables of the broker, the file system's and the box list among them.\<close>

record broker = io +
  bk_fs :: fs_state
  bk_head :: "nat option"
  bk_queue :: "pc_queue_t option"
  server_running :: bool

definition sig_handler :: "int \<Rightarrow> broker \<Rightarrow> broker res" where
  "sig_handler sig s =
     (if sig = SIGINT then Inr (s\<lparr>server_running := False\<rparr>) else Inl (Exit_failure ''signal''))"

definition deliver :: "io_event \<Rightarrow> broker \<Rightarrow> broker res" where
  "deliver ev s =
     (let s = s\<lparr>io_errno := ev_errno ev\<rparr> in if ev_sigint ev then sig_handler SIGINT s else Inr s)"

text \<open>A message on \<open>stderr\<close>, and the server is told to stop.\<close>

definition stop_server :: "string \<Rightarrow> broker \<Rightarrow> broker" where
  "stop_server t s = (err_line t s)\<lparr>server_running := False\<rparr>"

text \<open>The end of a handler that replies: write the request; when that fails stop the server,
  otherwise close the pipe.\<close>

definition reply_close :: "int \<Rightarrow> request \<Rightarrow> broker \<Rightarrow> (bool \<times> broker) res" where
  "reply_close fd request s =
     res_bind (sys_write fd (request_bytes request) s) (\<lambda>(ret, s).
     if ret < 0 then Inr (False, stop_server ''Server failed to write to the pipe.'' s)
     else Inr (True, sys_close fd s))"

text \<open>The texts of the replies, in UTF-8.\<close>

definition text_exists :: "byte list" where
  "text_exists = [67, 97, 105, 120, 97, 32, 106, 195, 161, 32, 101, 120, 105, 115, 116, 101, 46, 0]"
definition text_missing :: "byte list" where
  "text_missing = [67, 97, 105, 120, 97, 32, 110, 195, 163, 111, 32, 101, 120, 105, 115, 116, 101, 46, 0]"
definition text_create :: "byte list" where
  "text_create = [69, 114, 114, 111, 32, 97, 32, 99, 114, 105, 97, 114, 32, 97, 32, 99, 97, 105, 120, 97, 46, 0]"
definition text_remove :: "byte list" where
  "text_remove = [69, 114, 114, 111, 32, 97, 32, 114, 101, 109, 111, 118, 101, 114, 32, 97, 32, 99, 97, 105,
     120, 97, 46, 0]"

subsection \<open>Publisher sessions\<close>

definition set_publishers :: "box \<Rightarrow> size_t \<Rightarrow> broker \<Rightarrow> broker res" where
  "set_publishers b k s =
     res_bind (load_node (io_boxes s) b) (\<lambda>n.
     res_bind (store_node b (n\<lparr>b_publishers := k\<rparr>) (io_boxes s)) (\<lambda>st. Inr (s\<lparr>io_boxes := st\<rparr>)))"

text \<open>The call of \<open>tfs_write\<close>; the message is memory that reaches to the end of the request.\<close>

definition store_message :: "int \<Rightarrow> request \<Rightarrow> broker \<Rightarrow> broker res" where
  "store_message box_handle request s =
     (let message = drop 296 (request_bytes request) in
      res_bind (c_strlen message) (\<lambda>len.
      res_bind (tfs_write box_handle message (of_nat len) (bk_fs s)) (\<lambda>(_, fs). Inr (s\<lparr>bk_fs := fs\<rparr>))))"

definition text_closed :: "byte list" where
  "text_closed = ascii ''Session pipe has been closed.''"

text \<open>The loop of \<open>codeR_PUB\<close> over what the reads of the session pipe give; \<open>False\<close> is the return
  in the middle of the loop.\<close>

fun pub_session :: "io_event list \<Rightarrow> int \<Rightarrow> request \<Rightarrow> broker \<Rightarrow> (bool \<times> broker) res" where
  "pub_session [] box_handle request s = Inl Waiting"
| "pub_session (ev # evs) box_handle request s =
     res_bind (deliver ev (s\<lparr>io_reads := evs\<rparr>)) (\<lambda>s.
     let ret = event_ret ev; request = event_fill ev request in
     if ret = 0 then
       res_bind (store_message box_handle request s) (\<lambda>s. pub_session evs box_handle request s)
     else if io_errno s = EAGAIN then
       res_bind (store_message box_handle request (print_out text_closed s)) (\<lambda>s. Inr (True, s))
     else Inr (False, stop_server ''Unexpected error when reading from session pipe.'' s))"

definition codeR_PUB :: "byte list \<Rightarrow> byte list \<Rightarrow> broker \<Rightarrow> broker res" where
  "codeR_PUB session_pipe box_name s =
     res_bind (sys_open s) (\<lambda>(session_fifo, s).
     if session_fifo = - 1 then Inr (stop_server ''Failed to open publisher pipe.'' s)
     else
       res_bind (total (find_box (bk_head s) box_name (io_boxes s))) (\<lambda>session_box.
       res_bind (load_node (io_boxes s) session_box) (\<lambda>n.
       if b_publishers n = 1 then Inr (sys_close session_fifo s)
       else
         res_bind (set_publishers session_box 1 s) (\<lambda>s.
         res_bind (tfs_open (Some (b_name n)) TFS_O_APPEND (bk_fs s)) (\<lambda>(box_handle, fs).
         let s = s\<lparr>bk_fs := fs\<rparr> in
         if box_handle = - 1 then set_publishers session_box 0 (sys_close session_fifo s)
         else
           res_bind (pub_session (io_reads s) box_handle zero_request s) (\<lambda>(ended, s).
           if \<not> ended then Inr s
           else
             res_bind (tfs_close box_handle (bk_fs s)) (\<lambda>(_, fs).
             res_bind (set_publishers session_box 0 (s\<lparr>bk_fs := fs\<rparr>)) (\<lambda>s.
               Inr (sys_close session_fifo s)))))))))"

subsection \<open>Subscriber sessions\<close>

text \<open>One round of the loop up to the write: \<open>Inl\<close> when the server stops here.\<close>

definition sub_message ::
  "int \<Rightarrow> byte list \<Rightarrow> broker \<Rightarrow> (broker + request \<times> byte list \<times> broker) res" where
  "sub_message box_handle message s =
     res_bind (tfs_read box_handle message (of_nat (MAX_MESSAGE + 1)) (bk_fs s)) (\<lambda>(ret, message, fs).
     let s = s\<lparr>bk_fs := fs\<rparr> in
     if ret \<noteq> 0 then Inr (Inl (stop_server ''Server failed to read from the box.'' s))
     else
       res_bind (c_strlen message) (\<lambda>len.
       res_bind (if len < MAX_MESSAGE then clear_tail message len else Inr message) (\<lambda>message.
       res_bind (newRequest (code_byte M_SUB) None None 0 (Some message)) (\<lambda>request.
         Inr (Inr (request, message, s))))))"

text \<open>The loop has no end of its own; its rounds are counted by the writes the script has left.\<close>

fun sub_session :: "(int \<times> int) list \<Rightarrow> int \<Rightarrow> int \<Rightarrow> byte list \<Rightarrow> broker \<Rightarrow> broker res" where
  "sub_session [] fd box_handle message s =
     res_bind (sub_message box_handle message s) (\<lambda>r. case r of Inl s \<Rightarrow> Inr s | Inr _ \<Rightarrow> Inl Waiting)"
| "sub_session (w # ws) fd box_handle message s =
     res_bind (sub_message box_handle message s) (\<lambda>r.
     case r of
       Inl s \<Rightarrow> Inr s
     | Inr (request, message, s) \<Rightarrow>
         res_bind (sys_write fd (request_bytes request) s) (\<lambda>(ret, s).
         if ret < 0 then Inr (stop_server ''Server failed to write to the pipe.'' s)
         else sub_session ws fd box_handle message s))"

definition codeR_SUB :: "byte list \<Rightarrow> byte list \<Rightarrow> broker \<Rightarrow> broker res" where
  "codeR_SUB session_pipe box_name s =
     res_bind (sys_open s) (\<lambda>(session_fifo, s).
     if session_fifo = - 1 then Inr (stop_server ''Failed to open subscriber pipe.'' s)
     else
       res_bind (total (find_box (bk_head s) box_name (io_boxes s))) (\<lambda>session_box.
       res_bind (load_node (io_boxes s) session_box) (\<lambda>n.
       if b_subscribers n = 0 then Inr (sys_close session_fifo s)
       else
         res_bind (tfs_open (Some (b_name n)) TFS_O_APPEND (bk_fs s)) (\<lambda>(box_handle, fs).
         let s = s\<lparr>bk_fs := fs\<rparr> in
         if box_handle = - 1 then Inr (sys_close session_fifo s)
         else sub_session (io_writes s) session_fifo box_handle (local_array (MAX_MESSAGE + 1) s) s))))"

subsection \<open>Creating, removing and listing boxes\<close>

definition codeC_BOX :: "byte list \<Rightarrow> byte list \<Rightarrow> broker \<Rightarrow> broker res" where
  "codeC_BOX session_pipe box_name s =
     res_bind (sys_open s) (\<lambda>(session_fifo, s).
     if session_fifo = - 1 then
       res_bind (err_line_with ''Failed to open manager pipe (create). '' (Some session_pipe) s) (\<lambda>s.
         Inr (s\<lparr>server_running := False\<rparr>))
     else
       let message = local_array MAX_MESSAGE s in
       res_bind (total (find_box (bk_head s) box_name (io_boxes s))) (\<lambda>session_box.
       if session_box \<noteq> None then
         res_bind (copy_text text_exists message) (\<lambda>message.
         res_bind (c_strlen message) (\<lambda>len.
         res_bind (clear_tail message len) (\<lambda>message.
         res_bind (newRequest (code_byte R_R_BOX) None None (- 1) (Some message)) (\<lambda>request.
         res_bind (reply_close session_fifo request s) (\<lambda>(_, s). Inr s)))))
       else
         res_bind (tfs_open (Some box_name) TFS_O_CREAT (bk_fs s)) (\<lambda>(box_handle, fs).
         res_bind (tfs_close box_handle fs) (\<lambda>(close_ret, fs).
         let s = s\<lparr>bk_fs := fs\<rparr> in
         if box_handle = - 1 \<or> close_ret = - 1 then
           res_bind (copy_text text_create message) (\<lambda>message.
           res_bind (c_strlen message) (\<lambda>len.
           res_bind (newRequest (code_byte R_R_BOX) None None (- 1) (Some message)) (\<lambda>request.
           res_bind (clear_tail message len) (\<lambda>message.
           res_bind (reply_close session_fifo request s) (\<lambda>(_, s). Inr s)))))
         else
           res_bind (new_box box_name 0 BOX_SIZE 0 0 s) (\<lambda>(aux, s).
           res_bind (total (insertion_sort (bk_head s) aux (io_boxes s))) (\<lambda>st.
           let s = s\<lparr>io_boxes := st\<rparr>; message = replicate MAX_MESSAGE 0 in
           res_bind (newRequest (code_byte M_SUB) None None 0 (Some message)) (\<lambda>request.
           res_bind (reply_close session_fifo request s) (\<lambda>(sent, s).
             if \<not> sent then Inr s
             else Inl (Exit_failure ''Something went drastically wrong in server create box.'')))))))))"

definition codeR_BOX :: "byte list \<Rightarrow> byte list \<Rightarrow> broker \<Rightarrow> broker res" where
  "codeR_BOX session_pipe box_name s =
     (let message = local_array MAX_MESSAGE s in
     res_bind (sys_open s) (\<lambda>(session_fifo, s).
     if session_fifo = - 1 then Inr (stop_server ''Failed to open manager pipe (remove).'' s)
     else
       res_bind (total (find_box (bk_head s) box_name (io_boxes s))) (\<lambda>session_box.
       if session_box = None then
         res_bind (copy_text text_missing message) (\<lambda>message.
         res_bind (c_strlen message) (\<lambda>len.
         res_bind (clear_tail message len) (\<lambda>message.
         res_bind (newRequest (code_byte R_R_BOX) None None (- 1) (Some message)) (\<lambda>request.
         res_bind (reply_close session_fifo request s) (\<lambda>(_, s). Inr s)))))
       else
         res_bind (tfs_unlink (Some box_name) (bk_fs s)) (\<lambda>(ret, fs).
         let s = s\<lparr>bk_fs := fs\<rparr> in
         if ret = - 1 then
           res_bind (copy_text text_remove message) (\<lambda>message.
           res_bind (c_strlen message) (\<lambda>len.
           res_bind (clear_tail message len) (\<lambda>message.
           res_bind (newRequest (code_byte R_R_BOX) None None (- 1) (Some message)) (\<lambda>request.
           res_bind (reply_close session_fifo request s) (\<lambda>(_, s). Inr s)))))
         else
           res_bind (total (remove_box (bk_head s) box_name (io_boxes s))) (\<lambda>(_, st).
           let s = s\<lparr>io_boxes := st\<rparr>; message = replicate MAX_MESSAGE 0 in
           res_bind (newRequest (code_byte R_R_BOX) None None 0 (Some message)) (\<lambda>request.
           res_bind (reply_close session_fifo request s) (\<lambda>(_, s). Inr s)))))))"

text \<open>The address of a box as the value of the pointer field of a request.\<close>

definition ptr_value :: "box \<Rightarrow> size_t" where
  "ptr_value b = (case b of None \<Rightarrow> 0 | Some a \<Rightarrow> of_nat a)"

text \<open>One round of the listing loop up to the write: mark the last box, build the request.\<close>

definition list_message :: "byte \<Rightarrow> box \<Rightarrow> broker \<Rightarrow> (byte \<times> box \<times> request \<times> broker) res" where
  "list_message is_last aux s =
     res_bind (load_node (io_boxes s) aux) (\<lambda>n.
     let is_last = (if b_next n = None then 1 else is_last) in
     res_bind (store_node aux (n\<lparr>b_last := is_last\<rparr>) (io_boxes s)) (\<lambda>st.
     res_bind (newRequest (code_byte R_L_BOX) None None 0 None) (\<lambda>r.
       Inr (is_last, b_next n, r\<lparr>rq_boxa := ptr_value aux\<rparr>, s\<lparr>io_boxes := st\<rparr>))))"

fun list_boxes :: "(int \<times> int) list \<Rightarrow> int \<Rightarrow> byte \<Rightarrow> box \<Rightarrow> broker \<Rightarrow> (bool \<times> broker) res" where
  "list_boxes [] fd is_last aux s =
     (if aux = None then Inr (True, s)
      else res_bind (list_message is_last aux s) (\<lambda>_. Inl Waiting))"
| "list_boxes (w # ws) fd is_last aux s =
     (if aux = None then Inr (True, s)
      else
        res_bind (list_message is_last aux s) (\<lambda>(is_last, nxt, r, s).
        res_bind (sys_write fd (request_bytes r) s) (\<lambda>(ret, s).
        if ret < 0 then Inr (False, stop_server ''Server failed to write to the pipe.'' s)
        else list_boxes ws fd is_last nxt s)))"

definition codeL_BOX :: "byte list \<Rightarrow> broker \<Rightarrow> broker res" where
  "codeL_BOX session_pipe s =
     res_bind (sys_open s) (\<lambda>(session_fifo, s).
     if session_fifo = - 1 then Inr (stop_server ''Failed to open manager pipe. (list)'' s)
     else if bk_head s = None then
       let box_n = replicate (MAX_BOX_NAME + 1) 0 in
       res_bind (new_box box_n 1 BOX_SIZE 0 0 s) (\<lambda>(answer, s).
       res_bind (newRequest (code_byte R_L_BOX) None None 0 (Some box_n)) (\<lambda>r.
       res_bind (reply_close session_fifo (r\<lparr>rq_boxa := ptr_value answer\<rparr>) s) (\<lambda>(_, s). Inr s)))
     else
       res_bind (load_cell (io_boxes s) (bk_head s)) (\<lambda>aux.
       res_bind (list_boxes (io_writes s) session_fifo 0 aux s) (\<lambda>(completed, s).
         Inr (if completed then sys_close session_fifo s else s))))"

subsection \<open>The selector and the main loop\<close>

definition selector :: "byte \<Rightarrow> byte list \<Rightarrow> byte list \<Rightarrow> broker \<Rightarrow> broker res" where
  "selector code session_pipe box_name s =
     (if code = code_byte R_PUB then codeR_PUB session_pipe box_name s
      else if code = code_byte R_SUB then codeR_SUB session_pipe box_name s
      else if code = code_byte C_BOX then codeC_BOX session_pipe box_name s
      else if code = code_byte R_BOX then codeR_BOX session_pipe box_name s
      else if code = code_byte L_BOX then codeL_BOX session_pipe s
      else Inr (stop_server ''Inexistent code selected.'' s))"

text \<open>Freeing the queue, closing \<open>tfs_handle\<close> and the pipe, unlinking the pipe, and the return.\<close>

definition shut_down :: "int \<Rightarrow> int \<Rightarrow> int \<Rightarrow> broker \<Rightarrow> (int \<times> broker) res" where
  "shut_down tfs_handle server_fifo ret s =
     res_bind (tfs_close tfs_handle (bk_fs s)) (\<lambda>(_, fs).
       Inr (ret, (sys_close server_fifo s)\<lparr>bk_queue := None, bk_fs := fs, io_fifo := False\<rparr>))"

text \<open>The \<open>while\<close> loop over the reads of the register pipe; \<open>request\<close> keeps what earlier reads left.\<close>

fun serve :: "int \<Rightarrow> int \<Rightarrow> io_event list \<Rightarrow> request \<Rightarrow> broker \<Rightarrow> (int \<times> broker) res" where
  "serve tfs_handle server_fifo [] request s =
     (if server_running s then Inl Waiting else shut_down tfs_handle server_fifo (- 1) s)"
| "serve tfs_handle server_fifo (ev # evs) request s =
     (if \<not> server_running s then shut_down tfs_handle server_fifo (- 1) s
      else
        res_bind (deliver ev s) (\<lambda>s.
        let request = event_fill ev request in
        if event_ret ev \<noteq> 0 \<and> io_errno s = EINTR then
          shut_down tfs_handle server_fifo 1 (err_line ''Error wile reading request.'' s)
        else
          res_bind (selector (rq_code request) (drop 1 (request_bytes request))
              (drop 258 (request_bytes request)) s) (\<lambda>s.
            serve tfs_handle server_fifo evs request s)))"

text \<open>The name of the register pipe, and what the calls of \<open>main\<close> before the loop return: \<open>signal\<close>,
  the allocations of the file system and of the queue, \<open>mkfifo\<close>.\<close>

record startup =
  su_server_pipe :: "byte list"
  su_signal_ok :: bool
  su_fs_mallocs :: mallocs
  su_queue :: "pc_queue_t option"
  su_queue_mem :: "(nat \<Rightarrow> elem) option"
  su_mkfifo :: "int \<times> int"

definition print_usage :: "broker \<Rightarrow> broker" where
  "print_usage s = print_err (ascii ''usage: '' @ [10] @ ascii ''   mbroker <register_pipe_name> <max_sessions>'' @ [10]) s"

definition broker_main :: "nat \<Rightarrow> startup \<Rightarrow> io_event list \<Rightarrow> broker \<Rightarrow> (int \<times> broker) res" where
  "broker_main argc su evs s =
     (if argc \<noteq> 3 then Inr (1, print_usage s)
      else if \<not> su_signal_ok su then Inr (1, s)
      else
        res_bind (tfs_init None (su_fs_mallocs su) (bk_fs s)) (\<lambda>(tfs_handle, fs).
        let s = s\<lparr>bk_fs := fs\<rparr> in
        case su_queue su of
          None \<Rightarrow> Inl Null_deref
        | Some junk \<Rightarrow>
            let s = s\<lparr>bk_queue := Some (snd (pcq_create (su_queue_mem su) 100 junk))\<rparr>;
                (r, e) = su_mkfifo su;
                s = s\<lparr>io_errno := e, io_fifo := (r \<noteq> - 1 \<or> io_fifo s)\<rparr>
            in if r = - 1 \<and> io_errno s = EEXIST then
                 res_bind (err_line_with ''Create server pipe failed, '' (Some (su_server_pipe su)) s) (\<lambda>s.
                   Inr (1, s))
               else
                 res_bind (sys_open s) (\<lambda>(server_fifo, s).
                 if server_fifo = - 1 then
                   res_bind (err_line_with ''Open server pipe failed, '' (Some (su_server_pipe su)) s) (\<lambda>s.
                     Inr (1, s\<lparr>io_fifo := False\<rparr>))
                 else serve tfs_handle server_fifo evs zero_request (s\<lparr>server_running := True\<rparr>))))"

subsection \<open>What a handler can do\<close>

lemma broker_frame [simp]:
  "bk_head (after_open s) = bk_head s" "bk_fs (after_open s) = bk_fs s" "bk_head (sys_close fd s) = bk_head s"
  "server_running (sys_close fd s) = server_running s" "bk_fs (sys_close fd s) = bk_fs s"
  "bk_head (print_err t s) = bk_head s" "bk_fs (print_err t s) = bk_fs s"
  "bk_head (print_out t s) = bk_head s" "bk_fs (print_out t s) = bk_fs s"
  "server_running (print_err t s) = server_running s" "server_running (print_out t s) = server_running s"
  by (simp_all add: after_open_def sys_close_def print_err_def print_out_def)

lemma stop_server_frame [simp]:
  "\<not> server_running (stop_server t' s)" "bk_head (stop_server t' s) = bk_head s"
  "bk_fs (stop_server t' s) = bk_fs s" "io_sent (stop_server t' s) = io_sent s"
  "io_boxes (stop_server t' s) = io_boxes s"
  "bk_head (err_line t' s) = bk_head s" "io_sent (err_line t' s) = io_sent s"
  by (simp_all add: stop_server_def err_line_def)

text \<open>Nothing was written to a pipe, and \<open>head\<close> is as before.\<close>

definition same_output :: "broker \<Rightarrow> broker \<Rightarrow> bool" where
  "same_output s s' \<longleftrightarrow> io_sent s' = io_sent s \<and> bk_head s' = bk_head s"

lemma same_output_simps [simp]:
  "same_output s s" "same_output s (s1\<lparr>bk_fs := fs\<rparr>) = same_output s s1"
  "same_output s (s1\<lparr>io_reads := evs\<rparr>) = same_output s s1"
  "same_output s (s1\<lparr>server_running := b\<rparr>) = same_output s s1"
  "same_output s (sys_close fd s1) = same_output s s1" "same_output s (after_open s1) = same_output s s1"
  "same_output s (s1\<lparr>bk_queue := q\<rparr>) = same_output s s1" "same_output s (s1\<lparr>io_errno := e\<rparr>) = same_output s s1"
  "same_output s (s1\<lparr>io_fifo := b\<rparr>) = same_output s s1"
  "same_output s (s1\<lparr>io_boxes := st\<rparr>) = same_output s s1" "same_output s (s1\<lparr>io_mallocs := ms\<rparr>) = same_output s s1"
  "same_output s (print_err t s1) = same_output s s1" "same_output s (print_out t s1) = same_output s s1"
  "same_output s (stop_server t' s1) = same_output s s1" "same_output s (err_line t' s1) = same_output s s1"
  "same_output s (print_usage s1) = same_output s s1"
  by (simp_all add: same_output_def err_line_def print_usage_def)

lemma bind_err_line:
  "(\<And>t. returns P (g (print_err t s1))) \<Longrightarrow> returns P (res_bind (err_line_with t' p s1) g)"
  by (auto simp: err_line_with_def returns_def res_iff)

lemma returns_deliver: "same_output s s1 \<Longrightarrow> returns (same_output s) (deliver ev s1)"
  by (auto simp: deliver_def sig_handler_def same_output_def Let_def returns_def split: if_splits)

lemma returns_set_publishers: "same_output s s1 \<Longrightarrow> returns (same_output s) (set_publishers b k s1)"
  by (auto simp: set_publishers_def returns_def res_iff)

lemma returns_store_message: "same_output s s1 \<Longrightarrow> returns (same_output s) (store_message h r s1)"
  by (auto simp: store_message_def returns_def res_iff Let_def)

text \<open>Rules for a call that is followed by more, by what the call does.\<close>

lemma bind_open:
  assumes "same_output s s1" and "\<And>fd s2. same_output s s2 \<Longrightarrow> returns P (g fd s2)"
  shows "returns P (res_bind (sys_open s1) (\<lambda>(fd, s2). g fd s2))"
  using assms by (simp add: sys_open_eq returns_basic)

lemmas bind_output =
  returns_bind [OF returns_deliver] returns_bind [OF returns_set_publishers] returns_bind [OF returns_store_message]
  bind_open

lemma returns_pub_session: "same_output s s1 \<Longrightarrow> returns (\<lambda>(_, s'). same_output s s') (pub_session evs h r s1)"
proof (induction evs arbitrary: r s1)
  case (Cons ev evs)
  show ?case unfolding pub_session.simps
    by (rule bind_output [where s = s] returns_rules Cons.IH | simp add: Cons.prems)+
qed (simp add: returns_def)

lemma bind_pub_session:
  assumes "same_output s s1" and "\<And>ok s2. same_output s s2 \<Longrightarrow> returns P (g ok s2)"
  shows "returns P (res_bind (pub_session evs h r s1) (\<lambda>(ok, s2). g ok s2))"
  by (rule returns_bind [OF returns_pub_session [OF assms(1)]]) (use assms(2) in auto)

lemma returns_codeR_PUB: "returns (same_output s) (codeR_PUB p b s)"
  unfolding codeR_PUB_def
  by (rule bind_output [where s = s] bind_pub_session [where s = s] returns_rules returns_set_publishers returns_any
      | simp only: same_output_simps | simp; fail)+

lemma returns_sub_message:
  "same_output s s1 \<Longrightarrow> returns (\<lambda>r. \<exists>s'. r = Inl s' \<and> same_output s s' \<and> \<not> server_running s') (sub_message h m s1)"
  unfolding sub_message_def by (rule bind_request returns_rules returns_any | simp; fail)+

lemma returns_sub_session:
  "same_output s s1 \<Longrightarrow> returns (\<lambda>s'. same_output s s' \<and> \<not> server_running s') (sub_session ws fd h m s1)"
  by (cases ws) (auto intro!: returns_rules returns_bind [OF returns_sub_message])

lemma returns_codeR_SUB: "returns (same_output s) (codeR_SUB p b s)"
  unfolding codeR_SUB_def
  by (rule bind_open [where s = s] returns_rules returns_any
      | (rule returns_mono [OF returns_sub_session]; simp) | simp only: same_output_simps | simp; fail)+

text \<open>Creating, removing and listing boxes: after the \<open>open\<close> every way through builds a request
  before it returns.\<close>

lemma returns_codeC_BOX: "returns (\<lambda>s'. same_output s s' \<and> \<not> server_running s') (codeC_BOX p b s)"
  unfolding codeC_BOX_def
  by (rule bind_open [where s = s] bind_request bind_err_line returns_rules returns_any | simp; fail)+

lemma returns_codeR_BOX: "returns (\<lambda>s'. same_output s s' \<and> \<not> server_running s') (codeR_BOX p b s)"
  unfolding codeR_BOX_def
  by (rule bind_open [where s = s] bind_request returns_rules returns_any | simp; fail)+

lemma returns_list_message: "returns (\<lambda>_. False) (list_message l aux s)"
  unfolding list_message_def
  by (rule bind_request returns_rules returns_any)+

lemma returns_list_boxes: "returns (\<lambda>(_, s'). s' = s) (list_boxes ws fd l aux s)"
  by (cases ws) (auto intro!: returns_rules returns_bind [OF returns_list_message])

lemma returns_codeL_BOX: "returns (same_output s) (codeL_BOX p s)"
  unfolding codeL_BOX_def
  by (rule bind_open [where s = s] bind_request returns_bind [OF returns_list_boxes] returns_rules returns_any
      | simp; fail | auto; fail)+

subsubsection \<open>With the null \<open>head\<close> of the program\<close>

text \<open>The handler says so and stops the server when the pipe does not open, whatever \<open>head\<close> is; when
  it does, a publisher, a subscriber and a removal read or copy from a null pointer.\<close>

definition stopped :: "broker \<Rightarrow> broker \<Rightarrow> bool" where
  "stopped s s' \<longleftrightarrow> (\<exists>t. s' = (print_err t s)\<lparr>server_running := False\<rparr>)"

lemma stopped_intros [simp]:
  "stopped s (stop_server t' s)" "stopped s ((print_err t s)\<lparr>server_running := False\<rparr>)"
  by (auto simp: stopped_def stop_server_def err_line_def)

lemma stopped_facts: "stopped s s' \<Longrightarrow> \<not> server_running s' \<and> bk_head s' = bk_head s \<and> io_sent s' = io_sent s"
  by (auto simp: stopped_def)

lemma closed_pipe_handlers:
  assumes "io_opens s \<noteq> []" and "fst (hd (io_opens s)) = - 1"
  shows "\<exists>s'. codeR_PUB p b s = Inr s' \<and> stopped (after_open s) s'"
    and "\<exists>s'. codeR_SUB p b s = Inr s' \<and> stopped (after_open s) s'"
    and "terminated p \<Longrightarrow> \<exists>s'. codeC_BOX p b s = Inr s' \<and> stopped (after_open s) s'"
    and "\<exists>s'. codeR_BOX p b s = Inr s' \<and> stopped (after_open s) s'"
    and "\<exists>s'. codeL_BOX p s = Inr s' \<and> stopped (after_open s) s'"
  using assms by (simp_all add: codeR_PUB_def codeR_SUB_def codeC_BOX_def codeR_BOX_def codeL_BOX_def
      sys_open_eq Let_def err_line_with_terminated)

lemma null_head_crash:
  assumes "bk_head s = None" and "io_opens s \<noteq> []" and "fst (hd (io_opens s)) \<noteq> - 1"
  shows "codeR_PUB p b s = Inl Null_deref" and "codeR_SUB p b s = Inl Null_deref"
    and "codeR_BOX p b s = Inl Null_deref"
proof -
  show "codeR_PUB p b s = Inl Null_deref" "codeR_SUB p b s = Inl Null_deref"
    using assms by (simp_all add: codeR_PUB_def codeR_SUB_def sys_open_eq null_head)
  have "terminated text_missing" "cstr text_missing \<noteq> []"
    "length (cstr text_missing) < length (local_array MAX_MESSAGE s)" "length (local_array MAX_MESSAGE s) = MAX_MESSAGE"
    by (simp_all add: text_missing_def local_array_def MAX_MESSAGE_def)
  from copy_text_ok [OF this] show "codeR_BOX p b s = Inl Null_deref"
    using assms by (auto simp: codeR_BOX_def sys_open_eq null_head Let_def)
qed

text \<open>Listing: the empty list makes a node for an answer; then the same request fails.\<close>

lemma null_head_list:
  assumes "bk_head s = None" and "io_opens s \<noteq> []" and "fst (hd (io_opens s)) \<noteq> - 1"
  shows "codeL_BOX p s = Inl Null_deref"
proof -
  have "c_strcpy (replicate (MAX_BOX_NAME + 1) 0) = Inr [0]" by (simp add: MAX_BOX_NAME_def eval_nat_numeral)
  then show ?thesis
    using assms
    by (cases "io_mallocs s")
      (auto simp: codeL_BOX_def sys_open_eq new_box_def newBox_b_def BOX_NAME_LEN_def Let_def split: option.splits)
qed

lemma null_head_stops:
  assumes "bk_head s = None" and "codeR_PUB p b s = Inr s' \<or> codeR_SUB p b s = Inr s' \<or> codeL_BOX p s = Inr s'"
  shows "\<not> server_running s'"
proof -
  have some: "io_opens s \<noteq> []"
    using assms(2) by (auto simp: codeR_PUB_def codeR_SUB_def codeL_BOX_def sys_open_eq)
  show ?thesis
  proof (cases "fst (hd (io_opens s)) = - 1")
    case True
    have "stopped (after_open s) s'"
      using assms(2) closed_pipe_handlers(1) [OF some True, of p b] closed_pipe_handlers(2) [OF some True, of p b]
        closed_pipe_handlers(5) [OF some True, of p] by auto
    then show ?thesis by (simp add: stopped_facts)
  next
    case False
    then show ?thesis
      using assms(2) null_head_crash(1) [OF assms(1) some False, of p b]
        null_head_crash(2) [OF assms(1) some False, of p b] null_head_list [OF assms(1) some False, of p] by simp
  qed
qed

text \<open>Creating a box: the file system may make the file; the insertion or the reply fails.\<close>

lemma create_null_head:
  assumes "bk_head s = None" and "io_opens s \<noteq> []" and "fst (hd (io_opens s)) \<noteq> - 1"
    and "fs_inv (bk_fs s)" and "terminated b" and "length (cstr b) \<le> 32"
  shows "codeC_BOX p b s = Inl Null_deref"
proof -
  have "call_ok (fs_params (bk_fs s)) (Open (Some b) TFS_O_CREAT) (absf (bk_fs s))"
    using assms(5) by (simp add: has_flag_def TFS_O_CREAT_def TFS_O_TRUNC_def)
  from refine_open [OF assms(4) this] obtain h fs where
    op: "tfs_open (Some b) TFS_O_CREAT (bk_fs s) = Inr (h, fs)" "fs_inv fs" by (auto simp: refines_def)
  from refine_close [OF op(2), of h] obtain c fs' where cl: "tfs_close h fs = Inr (c, fs')"
    by (auto simp: refines_def)
  have "terminated text_create" "cstr text_create \<noteq> []"
    "length (cstr text_create) < length (local_array MAX_MESSAGE (after_open s))"
    "length (local_array MAX_MESSAGE (after_open s)) = MAX_MESSAGE"
    by (simp_all add: text_create_def local_array_def MAX_MESSAGE_def)
  from copy_text_ok [OF this] obtain m where
    m: "copy_text text_create (local_array MAX_MESSAGE (after_open s)) = Inr m" "\<exists>n. c_strlen m = Inr n" by blast
  have node: "(\<exists>x. new_box b 0 BOX_SIZE 0 0 t = Inr x \<and> bk_head (snd x) = bk_head t) \<or> new_box b 0 BOX_SIZE 0 0 t = Inl Null_deref" for t
    using assms(5,6)
    by (cases "io_mallocs t")
      (auto simp: new_box_def newBox_b_def c_strcpy_terminated BOX_NAME_LEN_def split: option.splits)
  show ?thesis
  proof (cases "h = - 1 \<or> c = - 1")
    case True
    then show ?thesis using assms(1-3) op cl m
      by (auto simp: codeC_BOX_def sys_open_eq null_head Let_def)
  next
    case False
    then show ?thesis
      using assms(1-3) op cl node [of "after_open s\<lparr>bk_fs := fs'\<rparr>"]
      by (auto simp: codeC_BOX_def sys_open_eq null_head Let_def)
  qed
qed

subsection \<open>The contract of the handlers\<close>

text \<open>
  A handler writes nothing to a pipe and leaves \<open>head\<close> alone; and, when \<open>head\<close> is \<open>NULL\<close>, it
  returns only after it has told the server to stop.
\<close>

locale handler =
  fixes run :: "byte list \<Rightarrow> byte list \<Rightarrow> broker \<Rightarrow> broker res"
  assumes quiet: "run p b s = Inr s' \<Longrightarrow> same_output s s'"
    and one_shot: "run p b s = Inr s' \<Longrightarrow> bk_head s = None \<Longrightarrow> \<not> server_running s'"
begin

text \<open>The loop after such a handler: nothing more is read when \<open>head\<close> is \<open>NULL\<close>.\<close>

lemma ends_loop:
  assumes "bk_head s = None"
  shows "res_bind (run p b s) (serve h fd evs req) = res_bind (run p b s) (shut_down h fd (- 1))"
proof (cases "run p b s")
  case (Inr s')
  then have "\<not> server_running s'" using assms by (rule one_shot)
  then have "serve h fd evs req s' = shut_down h fd (- 1) s'" by (cases evs) simp_all
  then show ?thesis using Inr by simp
qed simp

end

interpretation pub_handler: handler codeR_PUB
  using returnsD [OF returns_codeR_PUB] null_head_stops by unfold_locales blast+

interpretation sub_handler: handler codeR_SUB
  using returnsD [OF returns_codeR_SUB] null_head_stops by unfold_locales blast+

interpretation create_handler: handler codeC_BOX
  using returnsD [OF returns_codeC_BOX] by unfold_locales blast+

interpretation remove_handler: handler codeR_BOX
  using returnsD [OF returns_codeR_BOX] by unfold_locales blast+

interpretation list_handler: handler "\<lambda>p b. codeL_BOX p"
  using returnsD [OF returns_codeL_BOX] null_head_stops by unfold_locales blast+

lemma selector_quiet: "selector c p b s = Inr s' \<Longrightarrow> same_output s s'"
  unfolding selector_def
  using pub_handler.quiet sub_handler.quiet create_handler.quiet remove_handler.quiet list_handler.quiet
  by (simp split: if_splits) (auto simp: same_output_def)

lemma selector_one_shot: "selector c p b s = Inr s' \<Longrightarrow> bk_head s = None \<Longrightarrow> \<not> server_running s'"
  unfolding selector_def
  using pub_handler.one_shot sub_handler.one_shot create_handler.one_shot remove_handler.one_shot
    list_handler.one_shot
  by (simp split: if_splits) auto

interpretation any_handler: handler "selector c" for c
  using selector_quiet selector_one_shot by unfold_locales blast+

subsection \<open>The loop\<close>

lemma shut_down_output: "shut_down h fd k s = Inr (r, s') \<Longrightarrow> r = k \<and> same_output s s' \<and> \<not> io_fifo s'"
  by (auto simp: shut_down_def same_output_def res_iff)

lemma serve_output: "serve h fd evs req s = Inr (r, s') \<Longrightarrow> same_output s s'"
proof (induction evs arbitrary: req s)
  case Nil
  then show ?case using shut_down_output by (auto split: if_splits)
next
  case (Cons ev evs)
  show ?case
  proof (cases "server_running s")
    case False
    then show ?thesis using Cons.prems shut_down_output by auto
  next
    case True
    then obtain s1 where s1: "deliver ev s = Inr s1" using Cons.prems by (auto simp: res_iff)
    have o1: "same_output s s1" using returnsD [OF returns_deliver [OF same_output_simps(1)] s1] .
    have "same_output s1 s'"
      using Cons True s1 selector_quiet
      by (auto simp: Let_def res_iff same_output_def split: if_splits dest!: shut_down_output)
    then show ?thesis using o1 by (simp add: same_output_def)
  qed
qed

lemma returns_serve: "same_output s s1 \<Longrightarrow> returns (\<lambda>(_, s'). same_output s s') (serve h fd evs req s1)"
  using serve_output by (fastforce simp: returns_def same_output_def)

lemma returns_broker_main: "returns (\<lambda>(_, s'). same_output s s') (broker_main argc su evs s)"
  unfolding broker_main_def
  by (cases "su_queue su")
    (rule bind_open [where s = s] returns_rules returns_serve bind_err_line returns_any
      | simp only: option.case | (simp only: same_output_simps)
      | simp; fail)+

lemma deliver_eq:
  "deliver ev s = Inr (s\<lparr>io_errno := ev_errno ev, server_running := server_running s \<and> \<not> ev_sigint ev\<rparr>)"
  by (simp add: deliver_def sig_handler_def Let_def)

lemma selector_other:
  assumes "code \<notin> code_byte ` {R_PUB, R_SUB, C_BOX, R_BOX, L_BOX}"
  shows "selector code p b s = Inr (stop_server ''Inexistent code selected.'' s)"
  using assms by (simp add: selector_def)

text \<open>The call of \<open>tfs_write\<close> for a message does what the specification of a write says, of the text
  of the message.\<close>

lemma store_message_refines:
  assumes "fs_inv (bk_fs s)" and "request_ok req" and "terminated (rq_error_message req)"
  shows "\<exists>fs w m. store_message h req s = Inr (s\<lparr>bk_fs := fs\<rparr>) \<and> fs_inv fs \<and> fs_params fs = fs_params (bk_fs s) \<and>
           take (length (cstr (rq_error_message req))) m = cstr (rq_error_message req) \<and>
           sp_write (fs_params (bk_fs s)) h m (of_nat (length (cstr (rq_error_message req)))) (absf (bk_fs s)) =
             (w, absf fs)"
    and "unat (of_nat (length (cstr (rq_error_message req))) :: size_t) = length (cstr (rq_error_message req))"
proof -
  let ?p = "fs_params (bk_fs s)" and ?text = "cstr (rq_error_message req)"
  let ?m = "drop 296 (request_bytes req)"
  have m: "?m = rq_error_message req @ replicate 7 0 @ word_bytes (rq_boxa req)"
    using assms(2) by (simp add: request_bytes_def request_ok_def field_lengths)
  have t: "terminated ?m" "cstr ?m = ?text" using assms(3) by (simp_all add: m cstr_append)
  have "length ?text < length (rq_error_message req)" using assms(3) by (rule length_cstr_less)
  then have len: "length ?text < 1025" using assms(2) by (simp add: request_ok_def field_lengths)
  then show u: "unat (of_nat (length ?text) :: size_t) = length ?text" by (intro unat_of_nat_size) simp
  have fit: "length ?text \<le> length ?m" using length_cstr_less [OF t(1)] t(2) by simp
  have whole: "take (length ?text) ?m = ?text" using take_cstr [of ?m] unfolding t(2) .
  have "refines (bk_fs s) (tfs_write h ?m (of_nat (length ?text)) (bk_fs s))
      (sp_write ?p h ?m (of_nat (length ?text)) (absf (bk_fs s)))"
    using refine_write [OF assms(1), of "of_nat (length ?text)" ?m h] fit len u by simp
  then obtain w fs where "tfs_write h ?m (of_nat (length ?text)) (bk_fs s) = Inr (w, fs)" "fs_inv fs"
    "fs_params fs = ?p" "sp_write ?p h ?m (of_nat (length ?text)) (absf (bk_fs s)) = (w, absf fs)"
    by (auto simp: refines_def)
  then show "\<exists>fs w m. store_message h req s = Inr (s\<lparr>bk_fs := fs\<rparr>) \<and> fs_inv fs \<and> fs_params fs = ?p \<and>
      take (length ?text) m = ?text \<and> sp_write ?p h m (of_nat (length ?text)) (absf (bk_fs s)) = (w, absf fs)"
    using whole t by (intro exI [of _ fs] exI [of _ w] exI [of _ ?m])
      (simp add: store_message_def c_strlen_terminated Let_def)
qed

lemma take_prefix:
  assumes "take k m = text" and "n \<le> k" and "k = length text"
  shows "take n m = take n text"
  using assms by (metis min.absorb1 take_take)

subsection \<open>Properties\<close>

text \<open>A broker for the witnesses: the file system of \<open>TfsProps\<close>, the null \<open>head\<close>, a session pipe
  that opens as 5.\<close>

definition demo_broker :: broker where
  "demo_broker = \<lparr>io_fifo = True, io_fds = [3], io_sent = [], io_out = [], io_err = [], io_errno = 0,
     io_opens = [(5, 0)], io_reads = [], io_writes = [(1336, 0)], io_boxes = demo_store,
     io_mallocs = [(Some 9, demo_node 1 None)], io_stack = (\<lambda>_. 170),
     bk_fs = demo, bk_head = None, bk_queue = None, server_running = True\<rparr>"

definition no_data :: io_event where
  "no_data = \<lparr>ev_data = None, ev_errno = EAGAIN, ev_sigint = False\<rparr>"

definition demo_startup :: startup where
  "demo_startup = \<lparr>su_server_pipe = [112, 0], su_signal_ok = True, su_fs_mallocs = used_mallocs, su_queue = Some demo_queue,
     su_queue_mem = Some (\<lambda>_. 5), su_mkfifo = (0, 0)\<rparr>"



text \<open>With the null \<open>head\<close> the program starts with, the loop handles at most one read: a
  request with a known code ends the program or makes the loop stop, so that nothing that is
  read later has an effect.\<close>

theorem broker_serves_one_read:
  assumes "bk_head s = None"
  shows "serve h fd (ev # evs) req s = serve h fd (ev # evs') req s"
proof -
  have "bk_head (s\<lparr>io_errno := e, server_running := b\<rparr>) = None" for e b using assms by simp
  from any_handler.ends_loop [OF this] show ?thesis by (simp add: deliver_eq Let_def)
qed

theorem broker_serves_one_read_witness:
  "serve 0 3 (no_data # [no_data, no_data]) zero_request demo_broker =
   serve 0 3 (no_data # []) zero_request demo_broker"
  by (rule broker_serves_one_read) (simp add: demo_broker_def)



text \<open>A request to publish, subscribe, remove or list whose session pipe opens ends the broker
  with an access through a null pointer; when the pipe does not open, the server says so and is
  told to stop.\<close>

theorem broker_request_crashes:
  assumes "bk_head s = None" and "io_opens s \<noteq> []"
    and "code \<in> code_byte ` {R_PUB, R_SUB, R_BOX, L_BOX}"
  shows "if fst (hd (io_opens s)) = - 1
         then \<exists>s'. selector code p b s = Inr s' \<and> stopped (after_open s) s'
         else selector code p b s = Inl Null_deref"
  using assms(3) closed_pipe_handlers [OF assms(2)] null_head_crash [OF assms(1,2)] null_head_list [OF assms(1,2)]
  by (auto simp: selector_def)

theorem broker_request_crashes_witness: "selector 7 [0] [0] demo_broker = Inl Null_deref"
  using broker_request_crashes [of demo_broker 7 "[0]" "[0]"] by (simp add: demo_broker_def)

text \<open>A request to create a box ends the broker in the same way, also when the file system
  has created the file: the new node is inserted through the null \<open>head\<close>.\<close>

theorem broker_create_crashes:
  assumes "bk_head s = None" and "io_opens s \<noteq> []" and "fst (hd (io_opens s)) \<noteq> - 1"
    and "fs_inv (bk_fs s)" and "terminated b" and "length (cstr b) \<le> 32"
  shows "selector (code_byte C_BOX) p b s = Inl Null_deref"
  using create_null_head [OF assms] by (simp add: selector_def)

theorem broker_create_crashes_witness: "selector 3 [0] [47, 98, 0] demo_broker = Inl Null_deref"
  using broker_create_crashes [of demo_broker "[47, 98, 0]" "[0]"] by (simp add: demo_broker_def demo_facts)

text \<open>A message that a publisher sends is lost, whatever the list of boxes: a read that brings
  bytes counts as an error unless \<open>errno\<close> happens to be \<open>EAGAIN\<close>, so the session ends with the
  server told to stop and the box written no more.\<close>

theorem publisher_message_lost:
  assumes "ev_data ev = Some bs" and "bs \<noteq> []" and "ev_errno ev \<noteq> EAGAIN"
  shows "pub_session (ev # evs) h req s =
         Inr (False, stop_server ''Unexpected error when reading from session pipe.''
           (s\<lparr>io_reads := evs, io_errno := ev_errno ev, server_running := server_running s \<and> \<not> ev_sigint ev\<rparr>))"
  using assms by (cases bs) (simp_all add: deliver_eq event_ret_def sizeof_request_def Let_def)

theorem publisher_message_lost_witness:
  "pub_session [\<lparr>ev_data = Some (request_bytes (sample_request M_PUB 65 0)), ev_errno = 0, ev_sigint = False\<rparr>]
     0 zero_request demo_broker =
   Inr (False, stop_server ''Unexpected error when reading from session pipe.''
     (demo_broker\<lparr>io_reads := [], io_errno := 0\<rparr>))"
  using publisher_message_lost [of "\<lparr>ev_data = Some (request_bytes (sample_request M_PUB 65 0)), ev_errno = 0,
      ev_sigint = False\<rparr>" "request_bytes (sample_request M_PUB 65 0)" "[]" 0 zero_request demo_broker]
  by (simp add: EAGAIN_def request_bytes_def)

text \<open>What the handler for publishers does with a message it accepts: it returns, keeps the
  invariant of the file system, and the contents of the box's file are the old ones with the
  text of the message at the position of the handle, cut at the size of a block.\<close>

theorem store_message_writes_text:
  assumes "fs_inv (bk_fs s)" and "request_ok req" and "terminated (rq_error_message req)"
    and "sp_lookup (absf (bk_fs s)) h = Some (i, off)"
    and "off < unat (block_size (fs_params (bk_fs s)))" and "cstr (rq_error_message req) \<noteq> []"
    and "\<not> sp_no_space (fs_params (bk_fs s)) (absf (bk_fs s))"
  shows "\<exists>fs. store_message h req s = Inr (s\<lparr>bk_fs := fs\<rparr>) \<and> fs_inv fs \<and>
           sp_content (absf fs) i =
             write_at off (take (unat (block_size (fs_params (bk_fs s))) - off) (cstr (rq_error_message req)))
               (sp_content (absf (bk_fs s)) i)"
proof -
  let ?p = "fs_params (bk_fs s)" and ?text = "cstr (rq_error_message req)"
  obtain fs w m where fs: "store_message h req s = Inr (s\<lparr>bk_fs := fs\<rparr>)" "fs_inv fs" "take (length ?text) m = ?text"
    "sp_write ?p h m (of_nat (length ?text)) (absf (bk_fs s)) = (w, absf fs)"
    using store_message_refines(1) [OF assms(1-3)] by blast
  note u = store_message_refines(2) [OF assms(1-3)]
  let ?n = "min (length ?text) (unat (block_size ?p) - off)"
  have w: "w \<noteq> - 1" using fs(4) assms(4,7) by (auto simp: sp_write_def Let_def split: if_splits)
  have "0 < ?n" using assms(5,6) by simp
  with sp_writeD [OF fs(4) w assms(4), of ?n] u have
    "sp_content (absf fs) i = write_at off (take ?n m) (sp_content (absf (bk_fs s)) i)" by simp
  moreover have "take ?n m = take (unat (block_size ?p) - off) ?text"
    using take_prefix [OF fs(3), of ?n] by (simp add: min_def)
  ultimately show ?thesis using fs(1,2) by auto
qed

theorem store_message_writes_text_witness:
  "\<exists>fs. store_message 0 (sample_request M_PUB 65 0) (demo_broker\<lparr>bk_fs := demo_after [Open path_f TFS_O_CREAT]\<rparr>) =
          Inr (demo_broker\<lparr>bk_fs := fs\<rparr>) \<and> sp_content (absf fs) 1 = [65]"
proof -
  let ?cs = "[Open path_f TFS_O_CREAT]"
  let ?s = "demo_broker\<lparr>bk_fs := demo_after ?cs\<rparr>"
  have ok: "allowed small_params ?cs empty_afs" by code_simp
  note st = demo_after_facts [OF ok]
  have fs: "bk_fs ?s = demo_after ?cs" by simp
  have lookup: "sp_lookup (absf (bk_fs ?s)) 0 = Some (1, 0)" unfolding fs st(3) by code_simp
  have room: "\<not> sp_no_space (fs_params (bk_fs ?s)) (absf (bk_fs ?s))" unfolding fs st(2,3) by code_simp
  have empty: "sp_content (absf (bk_fs ?s)) 1 = []" unfolding fs st(3) by code_simp
  have msg: "cstr (rq_error_message (sample_request M_PUB 65 0)) = [65]"
    "terminated (rq_error_message (sample_request M_PUB 65 0))"
    by (simp_all add: sample_request_def)
  have "fs_inv (bk_fs ?s)" "0 < unat (block_size (fs_params (bk_fs ?s)))"
    "unat (block_size (fs_params (bk_fs ?s))) = 128"
    unfolding fs st(2) using st(1) by (simp_all add: small_params_def)
  with store_message_writes_text [OF this(1) sample_request_ok [of 0 M_PUB 65] msg(2) lookup _ _ room] have
    "\<exists>fs. store_message 0 (sample_request M_PUB 65 0) ?s = Inr (?s\<lparr>bk_fs := fs\<rparr>) \<and> fs_inv fs \<and>
       sp_content (absf fs) 1 = write_at 0 (take 128 [65]) (sp_content (absf (bk_fs ?s)) 1)"
    by (simp add: msg(1))
  then show ?thesis unfolding empty by (auto simp: msg(1) write_at_def)
qed

end
