(* ===== verification/Clients.thy ===== *)
theory Clients
  imports Posix
begin

text \<open>
  The three clients: \<open>publisher/pub.c\<close>, \<open>subscriber/sub.c\<close> and \<open>manager/manager.c\<close>. Each \<open>main\<close>
  has the same first half (arguments, session pipe, request to the broker) and a loop of its
  own. The command line is \<open>argc\<close> and the function \<open>argv\<close> from an index to a pointer into the
  block of argument strings \<open>cl_mem\<close>; the pointer behind the last one is null.
\<close>

subsection \<open>State\<close>

text \<open>\<open>session_end\<close> is the flag the signal handler sets (\<open>session_running\<close> in \<open>sub.c\<close>, which also
  starts false and ends the loop when true); \<open>cl_head\<close> is the local \<open>head\<close> of the manager.\<close>

record client = io +
  session_end :: bool
  cl_mem :: "byte list"
  cl_head :: "nat option"

text \<open>The \<open>sig_handler\<close> of each program.\<close>

definition manager_sig_handler :: "int \<Rightarrow> client \<Rightarrow> client res" where
  "manager_sig_handler sig s =
     (if sig = SIGINT then Inr (s\<lparr>session_end := True\<rparr>) else Inl (Exit_failure ''signal''))"

definition pub_sig_handler :: "int \<Rightarrow> client \<Rightarrow> client res" where
  "pub_sig_handler sig s =
     (if sig = SIGINT then Inr (s\<lparr>session_end := True\<rparr>) else Inl (Exit_failure ''signal''))"

definition sub_sig_handler :: "int \<Rightarrow> client \<Rightarrow> client res" where
  "sub_sig_handler sig s =
     (if sig = SIGINT then Inr (s\<lparr>session_end := True\<rparr>) else Inl (Exit_failure ''signal''))"

text \<open>A system call of the script that leaves \<open>e\<close> in \<open>errno\<close>, with the signal that came meanwhile.\<close>

definition client_deliver ::
  "(int \<Rightarrow> client \<Rightarrow> client res) \<Rightarrow> int \<Rightarrow> bool \<Rightarrow> client \<Rightarrow> client res" where
  "client_deliver handler e sigint s =
     (let s = s\<lparr>io_errno := e\<rparr> in if sigint then handler SIGINT s else Inr s)"

definition print_line :: "byte list \<Rightarrow> client \<Rightarrow> client" where
  "print_line l s = print_out (l @ [10]) s"

text \<open>The text of \<open>printf ("%d", n)\<close>.\<close>

definition decimal :: "nat \<Rightarrow> byte list" where
  "decimal n = map (\<lambda>d. of_nat (48 + d)) (decimal_digits n)"

text \<open>The string an argument of the command line points at.\<close>

definition arg_string :: "nat option \<Rightarrow> client \<Rightarrow> byte list option" where
  "arg_string p s = map_option (\<lambda>a. drop a (cl_mem s)) p"

text \<open>The \<open>print_usage\<close> of each program.\<close>

definition usage_line :: "string \<Rightarrow> byte list" where
  "usage_line t = ascii ''   '' @ ascii t @ [10]"

definition pub_print_usage :: "client \<Rightarrow> client" where
  "pub_print_usage s =
     print_err (ascii ''usage: '' @ [10] @ usage_line ''pub <register_pipe> <pipe_name> <box_name>'') s"

definition sub_print_usage :: "client \<Rightarrow> client" where
  "sub_print_usage s =
     print_err (ascii ''usage: '' @ [10] @ usage_line ''sub <register_pipe> <pipe_name> <box_name>'') s"

definition manager_print_usage :: "client \<Rightarrow> client" where
  "manager_print_usage s =
     print_err (ascii ''usage: '' @ [10] @ usage_line ''manager <register_pipe_name> create <box_name>''
       @ usage_line ''manager <register_pipe_name> remove <box_name>''
       @ usage_line ''manager <register_pipe_name> list'') s"

definition unlink_fifo :: "client \<Rightarrow> client" where
  "unlink_fifo s = s\<lparr>io_fifo := False\<rparr>"

text \<open>What the calls before the request return.\<close>

record client_start =
  cs_signal_ok :: bool
  cs_mkfifo :: "int \<times> int"

definition make_fifo :: "client_start \<Rightarrow> client \<Rightarrow> int \<times> client" where
  "make_fifo cs s =
     (let (r, e) = cs_mkfifo cs in (r, s\<lparr>io_errno := e, io_fifo := (r \<noteq> - 1 \<or> io_fifo s)\<rparr>))"

text \<open>\<open>send_request\<close> with the \<open>write\<close> of the script.\<close>

definition client_send :: "byte \<Rightarrow> nat option \<Rightarrow> nat option \<Rightarrow> int \<Rightarrow> client \<Rightarrow> client res" where
  "client_send code session_pipe box_name fd s =
     (case io_writes s of
        [] \<Rightarrow> res_bind (send_request code session_pipe box_name 0 (cl_mem s)) (\<lambda>_. Inl Waiting)
      | (w, e) # rest \<Rightarrow>
          res_bind (send_request code session_pipe box_name w (cl_mem s)) (\<lambda>(bs, mem).
            Inr (s\<lparr>io_writes := rest, io_errno := e, io_sent := io_sent s @ [(fd, bs)], cl_mem := mem\<rparr>)))"

text \<open>\<open>strcpy\<close> from the message of a request (memory up to the end of the structure) into an array
  of \<open>MAX_MESSAGE\<close> bytes; the result is the string that arrives.\<close>

definition copy_message :: "request \<Rightarrow> byte list res" where
  "copy_message r =
     res_bind (c_strcpy (drop 296 (request_bytes r))) (\<lambda>bs.
       if length bs > MAX_MESSAGE then Inl Out_of_bounds else Inr (cstr bs))"

text \<open>A \<open>Request\<close> on the stack that was not initialised.\<close>

definition stack_request :: "client \<Rightarrow> request" where
  "stack_request s = bytes_request (local_array sizeof_request s)"

subsection \<open>The publisher\<close>

text \<open>One \<open>fgets\<close>: the line it stored or \<open>None\<close>, then what \<open>ferror\<close> and \<open>feof\<close> say.\<close>

record input_event =
  in_line :: "byte list option"
  in_error :: bool
  in_eof :: bool
  in_sigint :: bool

text \<open>The line is read into \<open>line\<close>; what is sent is \<open>message\<close>, which nothing fills.\<close>

fun pub_loop :: "input_event list \<Rightarrow> int \<Rightarrow> byte list \<Rightarrow> client \<Rightarrow> client res" where
  "pub_loop [] fd message s = (if session_end s then Inr s else Inl Waiting)"
| "pub_loop (ev # evs) fd message s =
     (if session_end s then Inr s
      else
        res_bind (client_deliver pub_sig_handler (io_errno s) (in_sigint ev) s) (\<lambda>s.
        if in_line ev = None \<and> in_error ev then Inl (Exit_failure ''Failed to read from user input.'')
        else
          let s = (if in_line ev = None \<and> in_eof ev then s\<lparr>session_end := True\<rparr> else s) in
          res_bind (c_strlen message) (\<lambda>len.
          res_bind (if len < MAX_MESSAGE then clear_tail message len else Inr message) (\<lambda>message.
          res_bind (newRequest (code_byte M_PUB) None None 0 (Some message)) (\<lambda>r.
          res_bind (sys_write fd (take len (request_bytes r)) s) (\<lambda>(ret, s).
          if ret < 0 then Inl (Exit_failure ''Write failed.'') else pub_loop evs fd message s))))))"

definition pub_main ::
  "nat \<Rightarrow> (nat \<Rightarrow> nat option) \<Rightarrow> client_start \<Rightarrow> input_event list \<Rightarrow> client \<Rightarrow> (int \<times> client) res" where
  "pub_main argc argv cs evs s =
     (if argc \<noteq> 4 then Inr (1, pub_print_usage s)
      else if \<not> cs_signal_ok cs then Inr (0, s)
      else
        let (r, s) = make_fifo cs s in
        if r = - 1 \<and> io_errno s = EEXIST then Inr (1, err_line ''Session pipe already exists.'' s)
        else
          res_bind (sys_open s) (\<lambda>(server_fifo, s).
          if server_fifo = - 1 then Inr (1, err_line ''Open server pipe failed.'' s)
          else
            res_bind (client_send (code_byte R_PUB) (argv 2) (argv 3) server_fifo s) (\<lambda>s.
            res_bind (sys_open s) (\<lambda>(session_fifo, s).
            if session_fifo = - 1 then
              Inr (1, unlink_fifo (sys_close server_fifo (err_line ''Open session pipe failed.'' s)))
            else
              res_bind (pub_loop evs session_fifo (local_array MAX_MESSAGE s) s) (\<lambda>s.
                Inr (1, unlink_fifo (sys_close session_fifo s)))))))"

subsection \<open>The subscriber\<close>

text \<open>The loop gives the number of messages. The request is declared inside the loop without a value;
  it keeps what it held in the round before, being the same memory.\<close>

fun sub_loop :: "io_event list \<Rightarrow> int \<Rightarrow> request \<Rightarrow> nat \<Rightarrow> client \<Rightarrow> (nat \<times> client) res" where
  "sub_loop [] fd r n s = (if session_end s then Inr (n, s) else Inl Waiting)"
| "sub_loop (ev # evs) fd r n s =
     (if session_end s then Inr (n, s)
      else
        res_bind (client_deliver sub_sig_handler (ev_errno ev) (ev_sigint ev) s) (\<lambda>s.
        let r = event_fill ev r;
            s = (if event_ret ev = 0 then s
                 else if io_errno s = EAGAIN then
                   print_out (ascii ''Session pipe has been closed.'') (s\<lparr>session_end := True\<rparr>)
                 else if io_errno s = EINTR then
                   unlink_fifo (sys_close fd (err_line ''Unexpected error while reading.'' s))
                 else s)
        in res_bind (copy_message r) (\<lambda>message.
             sub_loop evs fd r (Suc n) (print_line message s))))"

definition sub_main ::
  "nat \<Rightarrow> (nat \<Rightarrow> nat option) \<Rightarrow> client_start \<Rightarrow> io_event list \<Rightarrow> client \<Rightarrow> (int \<times> client) res" where
  "sub_main argc argv cs evs s =
     (if argc \<noteq> 3 then Inr (1, sub_print_usage s)
      else if \<not> cs_signal_ok cs then Inr (0, s)
      else
        let (r, s) = make_fifo cs s in
        if r = - 1 \<and> io_errno s = EEXIST then Inr (1, err_line ''Session pipe already exists.'' s)
        else
          res_bind (sys_open s) (\<lambda>(server_fifo, s).
          if server_fifo = - 1 then Inr (1, unlink_fifo (err_line ''Open server pipe failed.'' s))
          else
            res_bind (client_send (code_byte R_SUB) (argv 2) (argv 3) server_fifo s) (\<lambda>s.
            res_bind (sys_open s) (\<lambda>(session_fifo, s).
            let s = (if session_fifo = - 1
                     then unlink_fifo (sys_close server_fifo (err_line ''Open session pipe failed.'' s)) else s) in
            res_bind (sub_loop evs session_fifo (stack_request s) 0 s) (\<lambda>(n, s).
              Inr (1, unlink_fifo (sys_close server_fifo (sys_close session_fifo
                (print_line (decimal n @ ascii '' messages  were received.'') s)))))))))"

subsection \<open>The manager\<close>

definition str_create :: "byte list" where "str_create = [99, 114, 101, 97, 116, 101, 0]"
definition str_remove :: "byte list" where "str_remove = [114, 101, 109, 111, 118, 101, 0]"
definition str_list :: "byte list" where "str_list = [108, 105, 115, 116, 0]"

text \<open>The choice of the code; with none of the three words it keeps the value \<open>junk\<close> of a variable
  that was not initialised.\<close>

definition manager_code :: "byte list option \<Rightarrow> byte \<Rightarrow> byte res" where
  "manager_code instruction junk =
     (case instruction of
        None \<Rightarrow> Inl Null_deref
      | Some m \<Rightarrow>
          res_bind (c_strcmp m str_create) (\<lambda>r. if r = 0 then Inr (code_byte C_BOX) else
          res_bind (c_strcmp m str_remove) (\<lambda>r. if r = 0 then Inr (code_byte R_BOX) else
          res_bind (c_strcmp m str_list) (\<lambda>r. if r = 0 then Inr (code_byte L_BOX) else Inr junk))))"

text \<open>\<open>sscanf (line, "%1hhu", &code)\<close>: white space is skipped; one digit is stored, anything else
  leaves \<open>code\<close> alone.\<close>

definition scan_code :: "byte list \<Rightarrow> byte \<Rightarrow> byte" where
  "scan_code line code =
     (case dropWhile (\<lambda>c. c \<in> {9, 10, 11, 12, 13, 32}) line of
        [] \<Rightarrow> code
      | c # _ \<Rightarrow> if 48 \<le> c \<and> c \<le> 57 then c - 48 else code)"

definition line_ok :: "byte list" where "line_ok = [79, 75]"
definition line_error :: "byte list \<Rightarrow> byte list" where "line_error m = [69, 82, 82, 79, 82, 32] @ m"
definition line_no_boxes :: "byte list" where
  "line_no_boxes = [78, 79, 32, 66, 79, 88, 69, 83, 32, 70, 79, 85, 78, 68]"

text \<open>The box behind the pointer of a request, in the manager's own memory.\<close>

definition ptr_box :: "size_t \<Rightarrow> box" where
  "ptr_box w = (if w = 0 then None else Some (unat w))"

text \<open>The branch for a reply that lists a box: \<open>None\<close> when the program goes on, \<open>Some\<close> when it
  returns. \<open>last\<close> is a local variable that is 0 and never changes.\<close>

definition list_reply ::
  "byte \<Rightarrow> int \<Rightarrow> int \<Rightarrow> byte list option \<Rightarrow> request \<Rightarrow> client \<Rightarrow> (bool option \<times> client) res" where
  "list_reply is_last server_fifo session_fifo box_name request s =
     res_bind (load_node (io_boxes s) (ptr_box (rq_boxa request))) (\<lambda>b.
     res_bind (new_box (b_name b) (b_last b) (b_size b) (b_publishers b) (b_subscribers b) s) (\<lambda>(aux, s).
     res_bind (total (insertion_sort (cl_head s) aux (io_boxes s))) (\<lambda>st.
     let s = s\<lparr>io_boxes := st\<rparr> in
     if is_last = 1 then
       (case box_name of
          None \<Rightarrow> Inl Null_deref
        | Some m \<Rightarrow>
            res_bind (c_strlen m) (\<lambda>n.
            if n = 0 then
              Inr (Some False, unlink_fifo (sys_close server_fifo (sys_close session_fifo (print_line line_no_boxes s))))
            else Inr (Some True, s\<lparr>session_end := True\<rparr>)))
     else Inr (None, s))))"

text \<open>The loop: \<open>Inl\<close> is a return in the middle, \<open>Inr print\<close> the end of the loop.\<close>

fun manager_loop ::
  "io_event list \<Rightarrow> int \<Rightarrow> int \<Rightarrow> byte list option \<Rightarrow> bool \<Rightarrow> request \<Rightarrow> client \<Rightarrow>
     ((int + bool) \<times> client) res" where
  "manager_loop [] server_fifo session_fifo box_name print request s =
     (if session_end s then Inr (Inr print, s) else Inl Waiting)"
| "manager_loop (ev # evs) server_fifo session_fifo box_name print request s =
     (if session_end s then Inr (Inr print, s)
      else
        res_bind (client_deliver manager_sig_handler (ev_errno ev) (ev_sigint ev) s) (\<lambda>s.
        if event_ret ev = - 1 then
          Inr (Inl 1, unlink_fifo (sys_close session_fifo (sys_close server_fifo
            (err_line ''Read from session pipe failed.'' s))))
        else
          let request = event_fill ev request; error_code = rq_return_code request in
          res_bind (copy_message request) (\<lambda>error_message.
          let code = scan_code (local_array 1030 s) (rq_code request) in
          if code = 4 \<or> code = 6 then
            let s = print_line (if error_code = - 1 then line_error error_message else line_ok) s in
            manager_loop evs server_fifo session_fifo box_name print request (s\<lparr>session_end := True\<rparr>)
          else
            res_bind (list_reply 0 server_fifo session_fifo box_name request s) (\<lambda>(r, s).
            case r of
              Some False \<Rightarrow> Inr (Inl 1, s)
            | Some True \<Rightarrow> manager_loop evs server_fifo session_fifo box_name True request s
            | None \<Rightarrow> manager_loop evs server_fifo session_fifo box_name print request s))))"

definition box_line :: "box_node \<Rightarrow> byte list" where
  "box_line n = cstr (b_name n) @ [32] @ decimal (unat (b_size n)) @ [32] @
     decimal (unat (b_publishers n)) @ [32] @ decimal (unat (b_subscribers n))"

text \<open>The \<open>do\<close> loop that prints the boxes. It frees each box it has printed and goes on while the
  one after it is the last.\<close>

definition print_step :: "box \<Rightarrow> client \<Rightarrow> (box \<times> bool \<times> client) res" where
  "print_step aux s =
     res_bind (load_node (io_boxes s) aux) (\<lambda>n.
     let s = print_line (box_line n) s; st = io_boxes s;
         s = (case aux of None \<Rightarrow> s | Some a \<Rightarrow> s\<lparr>io_boxes := st\<lparr>nodes := (nodes st)(a := None)\<rparr>\<rparr>)
     in res_bind (load_node (io_boxes s) (b_next n)) (\<lambda>n'.
          Inr (b_next n, b_next n' = None, s)))"

partial_function (option) print_boxes :: "box \<Rightarrow> client \<Rightarrow> client res option" where
  "print_boxes aux s =
     (case print_step aux s of
        Inl e \<Rightarrow> Some (Inl e)
      | Inr (aux, again, s) \<Rightarrow> if again then print_boxes aux s else Some (Inr s))"

definition manager_finish :: "int \<Rightarrow> int \<Rightarrow> bool \<Rightarrow> client \<Rightarrow> (int \<times> client) res" where
  "manager_finish server_fifo session_fifo print s =
     (if print \<and> cl_head s \<noteq> None then
        res_bind (load_cell (io_boxes s) (cl_head s)) (\<lambda>aux.
        res_bind (total (print_boxes aux s)) (\<lambda>s.
          Inr (0, unlink_fifo (sys_close server_fifo (sys_close session_fifo s)))))
      else Inr (1, unlink_fifo (sys_close session_fifo (sys_close server_fifo
        (err_line ''Box creation somehow failed.'' s)))))"

text \<open>The message when the session pipe is there already; \<open>%s\<close> with a null pointer is undefined, and
  with \<open>list\<close> there is no box name.\<close>

definition create_failed ::
  "nat option \<Rightarrow> nat option \<Rightarrow> nat option \<Rightarrow> nat option \<Rightarrow> client \<Rightarrow> client res" where
  "create_failed server_pipe session_pipe instruction box_name s =
     res_bind (c_text (arg_string server_pipe s)) (\<lambda>sv.
     res_bind (c_text (arg_string session_pipe s)) (\<lambda>ss.
     res_bind (c_text (arg_string instruction s)) (\<lambda>it.
     res_bind (c_text (arg_string box_name s)) (\<lambda>bx.
       Inr (print_err (ascii ''Create session pipe failed, server '' @ sv @ ascii '' session '' @ ss @
         ascii '' instruction '' @ it @ ascii '' box '' @ bx @ [10]) s)))))"

definition manager_main ::
  "nat \<Rightarrow> (nat \<Rightarrow> nat option) \<Rightarrow> client_start \<Rightarrow> io_event list \<Rightarrow> client \<Rightarrow> (int \<times> client) res" where
  "manager_main argc argv cs evs s =
     (if argc < 3 \<or> argc > 5 then
       Inr (1, print_out (decimal argc) (manager_print_usage s))
      else if \<not> cs_signal_ok cs then Inr (0, s)
      else
        let (r, s) = make_fifo cs s in
        if r = - 1 \<and> io_errno s = EEXIST then
          res_bind (create_failed (argv 1) (argv 2) (argv 3) (argv 4) s) (\<lambda>s. Inr (1, s))
        else
          res_bind (sys_open s) (\<lambda>(server_fifo, s).
          if server_fifo = - 1 then
            res_bind (err_line_with ''Open server pipe failed, '' (arg_string (argv 1) s) s) (\<lambda>s.
              Inr (1, unlink_fifo s))
          else
            res_bind (manager_code (arg_string (argv 3) s) (io_stack s 0)) (\<lambda>code.
            res_bind (client_send code (argv 2) (argv 4) server_fifo s) (\<lambda>s.
            let s = print_line (decimal (unat code)) s in
            res_bind (sys_open s) (\<lambda>(session_fifo, s).
            if session_fifo = - 1 then
              res_bind (err_line_with ''Open session pipe failed, '' (arg_string (argv 2) s) s) (\<lambda>s.
                Inr (1, unlink_fifo (sys_close server_fifo s)))
            else
              res_bind (manager_loop evs server_fifo session_fifo (arg_string (argv 4) s) False
                  (stack_request s) (s\<lparr>cl_head := None\<rparr>)) (\<lambda>(r, s).
              case r of
                Inl k \<Rightarrow> Inr (k, s)
              | Inr print \<Rightarrow> manager_finish server_fifo session_fifo print s))))))"

subsection \<open>Before the session\<close>

lemma client_send_fails: "\<exists>e. client_send code sp bn fd s = Inl e"
proof (cases "client_send code sp bn fd s")
  case (Inr t)
  have "\<exists>e. send_request code sp bn w (cl_mem s) = Inl e" for w by (rule send_request_fails)
  with Inr show ?thesis by (auto simp: client_send_def res_iff split: list.splits) (metis sum.distinct(1))+
qed simp

lemma bind_send: "returns P (res_bind (client_send code sp bn fd s) f)"
  using client_send_fails [of code sp bn fd s] by (auto simp: returns_def)

text \<open>The calls before the request send nothing.\<close>

definition silent :: "client \<Rightarrow> client \<Rightarrow> bool" where
  "silent s s' \<longleftrightarrow> io_sent s' = io_sent s"

lemma silent_simps [simp]:
  "silent s s" "silent s (after_open t) = silent s t" "silent s (sys_close fd t) = silent s t"
  "silent s (unlink_fifo t) = silent s t" "silent s (print_line l t) = silent s t"
  "silent s (print_out u t) = silent s t" "silent s (print_err u t) = silent s t"
  "silent s (err_line v t) = silent s t" "silent s (pub_print_usage t) = silent s t"
  "silent s (sub_print_usage t) = silent s t" "silent s (manager_print_usage t) = silent s t"
  by (simp_all add: silent_def after_open_def sys_close_def unlink_fifo_def print_line_def err_line_def
      pub_print_usage_def sub_print_usage_def manager_print_usage_def)

lemma bind_create_failed:
  "silent s t \<Longrightarrow> returns (\<lambda>(k, t). k \<in> {0, 1} \<and> silent s t)
     (res_bind (create_failed a b c d t) (\<lambda>t. Inr (1, t)))"
  by (auto simp: create_failed_def returns_def res_iff)

lemma bind_failed_line:
  "(\<And>u. returns P (g (print_err u t))) \<Longrightarrow> returns P (res_bind (err_line_with t' p t) g)"
  by (auto simp: err_line_with_def returns_def res_iff)

lemma make_fifo_silent: "make_fifo cs s = (r, t) \<Longrightarrow> silent s t"
  by (auto simp: make_fifo_def silent_def split: prod.splits)

lemma bind_client_open:
  assumes "silent s s1" and "\<And>fd s2. silent s s2 \<Longrightarrow> returns P (g fd s2)"
  shows "returns P (res_bind (sys_open s1) (\<lambda>(fd, s2). g fd s2))"
  using assms by (simp add: sys_open_eq returns_basic)

lemma let_fifo:
  assumes "\<And>r t. silent s t \<Longrightarrow> returns P (g r t)"
  shows "returns P (let (r, t) = make_fifo cs s in g r t)"
  using assms make_fifo_silent by (auto simp: Let_def split: prod.splits)

lemma returns_pub_main: "returns (\<lambda>(k, t). k \<in> {0, 1} \<and> silent s t) (pub_main argc argv cs evs s)"
  unfolding pub_main_def
  by (rule let_fifo bind_client_open [where s = s] bind_send returns_rules | simp; fail)+

lemma returns_sub_main: "returns (\<lambda>(k, t). k \<in> {0, 1} \<and> silent s t) (sub_main argc argv cs evs s)"
  unfolding sub_main_def
  by (rule let_fifo bind_client_open [where s = s] bind_send returns_rules | simp; fail)+

lemma returns_manager_main: "returns (\<lambda>(k, t). k \<in> {0, 1} \<and> silent s t) (manager_main argc argv cs evs s)"
  unfolding manager_main_def
  by (rule let_fifo bind_client_open [where s = s] bind_send bind_create_failed bind_failed_line returns_rules returns_any | simp; fail)+

subsection \<open>The loops\<close>

lemma print_client_frame [simp]:
  "session_end (print_out t s) = session_end s" "session_end (print_err t s) = session_end s"
  "cl_head (print_out t s) = cl_head s" "cl_head (print_err t s) = cl_head s"
  "cl_mem (print_out t s) = cl_mem s" "cl_mem (print_err t s) = cl_mem s"
  by (simp_all add: print_out_def print_err_def)

lemma client_deliver_eq:
  assumes "handler \<in> {manager_sig_handler, pub_sig_handler, sub_sig_handler}"
  shows "client_deliver handler e sigint s =
    Inr (s\<lparr>io_errno := e, session_end := session_end s \<or> sigint\<rparr>)"
  using assms
  by (cases sigint)
    (auto simp: client_deliver_def manager_sig_handler_def pub_sig_handler_def sub_sig_handler_def)

text \<open>The publisher's loop never gets a line out: every round builds a request from null pointers.\<close>

lemma pub_loop_fails: "\<not> session_end s \<Longrightarrow> \<exists>e. pub_loop evs fd message s = Inl e"
proof (cases evs)
  case (Cons ev evs')
  assume "\<not> session_end s"
  have "returns (\<lambda>_. False) (pub_loop (ev # evs') fd message s)"
    using \<open>\<not> session_end s\<close> unfolding pub_loop.simps
    by (simp only: if_False) (rule bind_request returns_rules returns_any)+
  then show ?thesis unfolding Cons by (cases "pub_loop (ev # evs') fd message s") (auto simp: returns_def)
qed simp

lemma copy_message_eq:
  assumes "request_ok r" and "terminated (rq_error_message r)"
  shows "copy_message r = Inr (cstr (rq_error_message r))"
proof -
  have m: "drop 296 (request_bytes r) = rq_error_message r @ replicate 7 0 @ word_bytes (rq_boxa r)"
    using assms(1) by (simp add: request_bytes_def request_ok_def field_lengths)
  have "length (cstr (rq_error_message r)) < MAX_MESSAGE"
    using length_cstr_less [OF assms(2)] assms(1) by (simp add: request_ok_def)
  then show ?thesis
    using assms(2) by (simp add: copy_message_def m c_strcpy_terminated cstr_append)
qed

text \<open>The event that delivers a whole request, and the one after which nothing is there.\<close>

definition delivers :: "request \<Rightarrow> io_event" where
  "delivers r = \<lparr>ev_data = Some (request_bytes r), ev_errno = 0, ev_sigint = False\<rparr>"

definition nothing_left :: io_event where
  "nothing_left = \<lparr>ev_data = None, ev_errno = EAGAIN, ev_sigint = False\<rparr>"

definition message_ok :: "request \<Rightarrow> bool" where
  "message_ok r \<longleftrightarrow> request_ok r \<and> terminated (rq_error_message r)"

lemma delivers_simps:
  assumes "request_ok r" and "request_ok old"
  shows "event_fill (delivers r) old = r" and "event_ret (delivers r) = 1336"
  using assms length_request_bytes [OF assms(1)]
  by (simp_all add: delivers_def event_fill_def event_ret_def read_whole sizeof_request_def)

text \<open>What a subscriber prints for a request, and what it prints when the pipe is closed.\<close>

definition message_line :: "request \<Rightarrow> byte list" where
  "message_line r = cstr (rq_error_message r) @ [10]"

definition pipe_closed_text :: "byte list" where
  "pipe_closed_text = ascii ''Session pipe has been closed.''"

lemma sub_loop_messages:
  assumes "\<And>r. r \<in> set rs \<Longrightarrow> message_ok r" and "message_ok old" and "\<not> session_end s"
  shows "\<exists>t. sub_loop (map delivers rs @ [nothing_left]) fd old n s = Inr (n + length rs + 1, t) \<and>
           io_out t = io_out s @ map message_line rs @ [pipe_closed_text, message_line (last (old # rs))] \<and>
           session_end t"
  using assms
proof (induction rs arbitrary: old n s)
  case Nil
  then show ?case
    by (simp add: message_ok_def nothing_left_def client_deliver_eq event_fill_def event_ret_def
        copy_message_eq print_line_def message_line_def pipe_closed_text_def Let_def)
next
  case (Cons r rs)
  then have ok: "request_ok r" "terminated (rq_error_message r)" "message_ok r" "request_ok old"
    by (simp_all add: message_ok_def)
  let ?s = "print_line (cstr (rq_error_message r)) (s\<lparr>io_errno := 0, session_end := False\<rparr>)"
  have "sub_loop (map delivers (r # rs) @ [nothing_left]) fd old n s =
      sub_loop (map delivers rs @ [nothing_left]) fd r (Suc n) ?s"
    using Cons.prems(3) ok
    by (simp add: client_deliver_eq delivers_simps copy_message_eq EAGAIN_def EINTR_def)
      (simp add: delivers_def)
  moreover have "\<exists>t. sub_loop (map delivers rs @ [nothing_left]) fd r (Suc n) ?s = Inr (Suc n + length rs + 1, t) \<and>
      io_out t = io_out ?s @ map message_line rs @ [pipe_closed_text, message_line (last (r # rs))] \<and> session_end t"
    by (rule Cons.IH) (use Cons.prems ok in \<open>simp_all add: print_line_def print_out_def\<close>)
  ultimately show ?case by (auto simp: print_line_def message_line_def)
qed

lemma manager_loop_reply:
  assumes "message_ok r" and "message_ok old" and "\<not> session_end s" and "rq_code r = 4 \<or> rq_code r = 6"
    and "scan_code (local_array 1030 s) (rq_code r) = rq_code r"
  shows "\<exists>t. manager_loop (delivers r # evs) sf pf bn print old s = Inr (Inr print, t) \<and> cl_head t = cl_head s \<and>
           io_out t = io_out s @ [(if rq_return_code r = - 1 then line_error (cstr (rq_error_message r)) else line_ok) @ [10]]"
proof -
  have r: "request_ok r" "terminated (rq_error_message r)" "request_ok old"
    using assms(1,2) by (simp_all add: message_ok_def)
  have stop: "manager_loop evs sf pf bn print r t = Inr (Inr print, t)" if "session_end t" for t
    using that by (cases evs) simp_all
  have arr: "local_array 1030 (s\<lparr>io_errno := e, session_end := b\<rparr>) = local_array 1030 s" for e b
    by (simp add: local_array_def)
  show ?thesis
    using assms(3-5) r stop
    by (simp add: client_deliver_eq delivers_simps copy_message_eq arr Let_def print_line_def)
qed

text \<open>The printing loop over a list of boxes.\<close>

lemma print_boxes_path:
  assumes "box_list (io_boxes s) c (a # as)" and "cl_head s = Some c"
  shows "case as of
           [] \<Rightarrow> print_boxes (Some a) s = Some (Inl Null_deref)
         | [b] \<Rightarrow> print_boxes (Some a) s = Some (Inl Null_deref)
         | _ \<Rightarrow> \<exists>t. print_boxes (Some a) s = Some (Inr t) \<and> io_out t = io_out s @ [box_line (the (nodes (io_boxes s) a)) @ [10]]"
proof -
  obtain n where n: "nodes (io_boxes s) a = Some n" "path (nodes (io_boxes s)) (b_next n) as" "distinct (a # as)"
    using assms(1) by (rule box_list_first)
  show ?thesis
  proof (cases as)
    case Nil
    then show ?thesis using n by (subst print_boxes.simps) (simp add: print_step_def print_line_def Let_def)
  next
    case (Cons b bs)
    then obtain m where m: "nodes (io_boxes s) b = Some m" "path (nodes (io_boxes s)) (b_next m) bs" "b_next n = Some b"
      using n(2) by (auto split: option.splits)
    have ab: "a \<noteq> b" using n(3) Cons by auto
    let ?t = "(print_line (box_line n) s)\<lparr>io_boxes := (io_boxes s)\<lparr>nodes := (nodes (io_boxes s))(a := None)\<rparr>\<rparr>"
    have step: "print_step (Some a) s = Inr (Some b, b_next m = None, ?t)"
      using n(1) m ab by (simp add: print_step_def print_line_def Let_def load_node_def)
    show ?thesis
    proof (cases bs)
      case Nil
      have "print_boxes (Some b) ?t = Some (Inl Null_deref)"
        using m Nil ab by (subst print_boxes.simps) (simp add: print_step_def print_line_def Let_def load_node_def)
      then show ?thesis using step m Nil Cons by (subst print_boxes.simps) simp
    next
      case (Cons d ds)
      then have "b_next m \<noteq> None" using m(2) by auto
      then have "print_boxes (Some a) s = Some (Inr ?t)" using step by (subst print_boxes.simps) auto
      moreover have "io_out ?t = io_out s @ [box_line (the (nodes (io_boxes s) a)) @ [10]]"
        using n(1) by (simp add: print_line_def)
      ultimately show ?thesis using \<open>as = b # bs\<close> Cons by auto
    qed
  qed
qed

subsection \<open>Properties\<close>

text \<open>A client for the witnesses. The block of arguments is that of \<open>pub r p /b\<close>.\<close>

definition demo_client :: client where
  "demo_client = \<lparr>io_fifo = False, io_fds = [], io_sent = [], io_out = [], io_err = [], io_errno = 0,
     io_opens = [(4, 0), (5, 0)], io_reads = [], io_writes = [(1336, 0), (1336, 0)], io_boxes = demo_store,
     io_mallocs = [(Some 9, demo_node 1 None)], io_stack = (\<lambda>_. 170),
     session_end = False, cl_mem = pub_args, cl_head = None\<rparr>"

definition demo_argv :: "nat \<Rightarrow> nat option" where
  "demo_argv i = (if i = 0 then Some 0 else if i = 1 then Some 4 else if i = 2 then Some 6
     else if i = 3 then Some 8 else None)"

definition demo_cs :: client_start where
  "demo_cs = \<lparr>cs_signal_ok = True, cs_mkfifo = (0, 0)\<rparr>"

text \<open>C34: When one of the three clients returns at all, it has sent nothing to the broker: it
  returned before its request (with 1, or 0 when the signal handler could not be
  set), since \<open>send_request\<close> never returns.\<close>

theorem clients_send_nothing:
  assumes "pub_main argc argv cs ins s = Inr (k, t) \<or> sub_main argc argv cs evs s = Inr (k, t) \<or>
           manager_main argc argv cs evs s = Inr (k, t)"
  shows "k \<in> {0, 1} \<and> io_sent t = io_sent s"
  using assms returnsD [OF returns_pub_main] returnsD [OF returns_sub_main] returnsD [OF returns_manager_main]
  by (fastforce simp: silent_def)

theorem clients_send_nothing_witness:
  "pub_main 3 demo_argv demo_cs [] demo_client = Inr (1, pub_print_usage demo_client) \<and>
   io_sent (pub_print_usage demo_client) = []"
proof -
  have m: "pub_main 3 demo_argv demo_cs [] demo_client = Inr (1, pub_print_usage demo_client)"
    by (simp add: pub_main_def)
  with clients_send_nothing [of 3 demo_argv demo_cs "[]" demo_client 1 "pub_print_usage demo_client" "[]"]
  show ?thesis by (simp add: demo_client_def)
qed

text \<open>With the right number of arguments and pipes that open, the publisher and the subscriber
  end in a fault, the subscriber because it passes the null pointer behind its two arguments.\<close>

theorem clients_fault_on_request:
  assumes "cs_signal_ok cs" and "fst (cs_mkfifo cs) \<noteq> - 1" and "io_opens s = (fd, e) # rest" and "fd \<noteq> - 1"
  shows "(\<exists>x. pub_main 4 argv cs ins s = Inl x) \<and> (\<exists>x. sub_main 3 argv cs evs s = Inl x)"
proof -
  obtain r e' where mk: "cs_mkfifo cs = (r, e')" "r \<noteq> - 1" using assms(2) by (cases "cs_mkfifo cs") auto
  let ?s = "s\<lparr>io_errno := e', io_fifo := True\<rparr>"
  have op: "sys_open ?s = Inr (fd, after_open ?s)" using assms(3) by (simp add: sys_open_eq)
  obtain x where x: "client_send (code_byte R_PUB) (argv 2) (argv 3) fd (after_open ?s) = Inl x"
    using client_send_fails by blast
  obtain y where y: "client_send (code_byte R_SUB) (argv 2) (argv 3) fd (after_open ?s) = Inl y"
    using client_send_fails by blast
  have "pub_main 4 argv cs ins s = Inl x"
    using assms mk op x by (simp add: pub_main_def make_fifo_def Let_def)
  moreover have "sub_main 3 argv cs evs s = Inl y"
    using assms mk op y by (simp add: sub_main_def make_fifo_def Let_def)
  ultimately show ?thesis by blast
qed

theorem clients_fault_on_request_witness: "\<exists>x. pub_main 4 demo_argv demo_cs [] demo_client = Inl x"
  using clients_fault_on_request [of demo_cs demo_client 4 0 "[(5, 0)]" demo_argv "[]" "[]"]
  by (simp add: demo_cs_def demo_client_def)

text \<open>C32: A subscriber whose requests arrive whole prints the message of each, in order, and ends
  when nothing is left; but it prints the last message (or what the stack held) once more and
  counts it.\<close>

theorem sub_prints_messages:
  assumes "\<forall>r \<in> set rs. message_ok r" and "message_ok old" and "\<not> session_end s"
  shows "\<exists>t. sub_loop (map delivers rs @ [nothing_left]) fd old 0 s = Inr (length rs + 1, t) \<and>
           io_out t = io_out s @ map message_line rs @ [pipe_closed_text, message_line (last (old # rs))]"
  using sub_loop_messages [of rs old s fd 0] assms by auto

lemma sample_message_ok: "message_ok (sample_request c b 0)"
  using sample_request_ok [of 0 c b] by (simp add: message_ok_def) (simp add: sample_request_def)

theorem sub_prints_messages_witness:
  "\<exists>t. sub_loop (map delivers [sample_request M_SUB 65 0, sample_request M_SUB 66 0] @ [nothing_left]) 5
         (sample_request M_SUB 0 0) 0 demo_client = Inr (3, t) \<and>
       io_out t = [[65, 10], [66, 10], pipe_closed_text, [66, 10]]"
proof -
  let ?rs = "[sample_request M_SUB 65 0, sample_request M_SUB 66 0]"
  have ok: "\<forall>r \<in> set ?rs. message_ok r" by (simp add: sample_message_ok)
  have m: "map message_line ?rs @ [pipe_closed_text, message_line (last (sample_request M_SUB 0 0 # ?rs))] =
      [[65, 10], [66, 10], pipe_closed_text, [66, 10]]"
    by (simp add: sample_request_def message_line_def)
  have "\<not> session_end demo_client" "io_out demo_client = []" by (simp_all add: demo_client_def)
  note d = this
  have three: "length ?rs + 1 = 3" by simp
  show ?thesis
    using sub_prints_messages [OF ok sample_message_ok [of M_SUB 0] d(1), of 5]
    unfolding m d(2) append_Nil three .
qed



text \<open>The manager's loop that prints the boxes of a sorted list prints the first box only; on a
  list of one or two boxes it reads through a null pointer, since its condition is inverted.\<close>

theorem print_boxes_outcome:
  assumes "box_list (io_boxes s) c (a # as)" and "cl_head s = Some c"
  shows "case as of
           [] \<Rightarrow> print_boxes (Some a) s = Some (Inl Null_deref)
         | [b] \<Rightarrow> print_boxes (Some a) s = Some (Inl Null_deref)
         | _ \<Rightarrow> \<exists>t. print_boxes (Some a) s = Some (Inr t) \<and> io_out t = io_out s @ [box_line (the (nodes (io_boxes s) a)) @ [10]]"
  by (rule print_boxes_path [OF assms])

theorem print_boxes_outcome_witness: "print_boxes (Some 4) (demo_client\<lparr>cl_head := Some 0\<rparr>) = Some (Inl Null_deref)"
  using print_boxes_outcome [of "demo_client\<lparr>cl_head := Some 0\<rparr>" 0 4 "[5]"] demo_list(1)
  by (simp add: demo_client_def)

end
