(* ===== verification/Sessions.thy ===== *)
theory Sessions
  imports Mbroker Clients
begin

text \<open>
  Whole sessions of the broker of \<open>mbroker/mbroker.c\<close> with a list of boxes that is not empty: what
  a publisher's session does from its \<open>open\<close> to its \<open>close\<close>, the one publisher a box may have,
  and why no subscriber and no manager is ever served. The program itself never assigns \<open>head\<close>; these are the
  handlers' own properties, for every list they could be given.
\<close>

declare absf_simps [simp del]

subsection \<open>The loop of a publisher's session\<close>

text \<open>A read at end of file, while no publisher has the pipe open for writing.\<close>

definition idle_read :: "io_event \<Rightarrow> bool" where
  "idle_read ev \<longleftrightarrow> ev_data ev = Some [] \<and> \<not> ev_sigint ev"

lemma deliver_quiet: "\<not> ev_sigint ev \<Longrightarrow> deliver ev s = Inr (s\<lparr>io_errno := ev_errno ev\<rparr>)"
  by (simp add: deliver_def Let_def)

lemma idle_fill: "idle_read ev \<Longrightarrow> request_ok req \<Longrightarrow> event_fill ev req = req \<and> event_ret ev = 0"
  by (simp add: idle_read_def event_fill_def event_ret_def read_request_def overwrite_def request_round_trip)

text \<open>An empty message changes no file and no handle.\<close>

lemma store_nothing:
  assumes "fs_inv (bk_fs s)" and "request_ok req" and "terminated (rq_error_message req)"
    and "cstr (rq_error_message req) = []"
  shows "\<exists>fs. store_message h req s = Inr (s\<lparr>bk_fs := fs\<rparr>) \<and> fs_inv fs \<and>
           fs_params fs = fs_params (bk_fs s) \<and> absf fs = absf (bk_fs s)"
proof -
  obtain fs w m where fs: "store_message h req s = Inr (s\<lparr>bk_fs := fs\<rparr>)" "fs_inv fs" "fs_params fs = fs_params (bk_fs s)"
    "sp_write (fs_params (bk_fs s)) h m 0 (absf (bk_fs s)) = (w, absf fs)"
    using store_message_refines(1) [OF assms(1-3), of h] unfolding assms(4) by auto
  have "snd (sp_write p h m 0 A) = A" for p A by (simp add: sp_write_def split: option.splits)
  then show ?thesis using fs by (metis snd_conv)
qed

lemma idle_rounds:
  assumes "\<forall>ev \<in> set idle. idle_read ev" and "fs_inv (bk_fs s)" and "request_ok req"
    and "terminated (rq_error_message req)" and "cstr (rq_error_message req) = []"
  shows "\<exists>fs e rs. fs_inv fs \<and> fs_params fs = fs_params (bk_fs s) \<and> absf fs = absf (bk_fs s) \<and>
           pub_session (idle @ evs) h req s =
             pub_session evs h req (s\<lparr>bk_fs := fs, io_errno := e, io_reads := rs\<rparr>)"
  using assms(1,2)
proof (induction idle arbitrary: s)
  case Nil
  show ?case
    by (intro exI [of _ "bk_fs s"] exI [of _ "io_errno s"] exI [of _ "io_reads s"]) (simp add: Nil)
next
  case (Cons ev idle)
  let ?s = "s\<lparr>io_reads := idle @ evs, io_errno := ev_errno ev\<rparr>"
  have ev: "idle_read ev" "\<not> ev_sigint ev" using Cons.prems by (simp_all add: idle_read_def)
  obtain fs where fs: "store_message h req ?s = Inr (?s\<lparr>bk_fs := fs\<rparr>)" "fs_inv fs"
    "fs_params fs = fs_params (bk_fs s)" "absf fs = absf (bk_fs s)"
    using store_nothing [of ?s req h] Cons.prems(2) assms(3-5) by auto
  have round: "pub_session ((ev # idle) @ evs) h req s = pub_session (idle @ evs) h req (?s\<lparr>bk_fs := fs\<rparr>)"
    using idle_fill [OF ev(1) assms(3)] fs(1) by (simp add: deliver_quiet [OF ev(2)] Let_def)
  obtain fs' e rs where "fs_inv fs'" "fs_params fs' = fs_params fs" "absf fs' = absf fs"
    "pub_session (idle @ evs) h req (?s\<lparr>bk_fs := fs\<rparr>) =
       pub_session evs h req (?s\<lparr>bk_fs := fs, bk_fs := fs', io_errno := e, io_reads := rs\<rparr>)"
    using Cons.IH [of "?s\<lparr>bk_fs := fs\<rparr>"] Cons.prems(1) fs(2) by auto
  then show ?case
    unfolding round using fs(3,4)
    by (intro exI [of _ fs'] exI [of _ e] exI [of _ rs]) simp
qed

text \<open>The read that ends the session, with or without a message.\<close>

definition ends_session :: "io_event \<Rightarrow> bool" where
  "ends_session ev \<longleftrightarrow> event_ret ev \<noteq> 0 \<and> ev_errno ev = EAGAIN \<and> \<not> ev_sigint ev"

definition closing :: "io_event list \<Rightarrow> broker \<Rightarrow> broker" where
  "closing evs s = print_out text_closed (s\<lparr>io_reads := evs, io_errno := EAGAIN\<rparr>)"

lemma closing_simps [simp]:
  "closing evs (s\<lparr>bk_fs := fs, io_errno := e, io_reads := rs\<rparr>) = (closing evs s)\<lparr>bk_fs := fs\<rparr>"
  "bk_fs (closing evs s) = bk_fs s" "io_boxes (closing evs s) = io_boxes s"
  by (simp_all add: closing_def print_out_def)

lemma last_round:
  assumes "ends_session ev"
  shows "pub_session (ev # evs) h req s =
    res_bind (store_message h (event_fill ev req) (closing evs s)) (\<lambda>s. Inr (True, s))"
  using assms by (simp add: ends_session_def deliver_quiet Let_def closing_def)

lemma set_publishers_eq:
  "nodes (io_boxes s) a = Some n \<Longrightarrow> set_publishers (Some a) k s =
     Inr (s\<lparr>io_boxes := (io_boxes s)\<lparr>nodes := (nodes (io_boxes s))(a \<mapsto> n\<lparr>b_publishers := k\<rparr>)\<rparr>\<rparr>)"
  by (simp add: set_publishers_def load_node_def store_node_def)

subsection \<open>The handler\<close>

text \<open>The publisher of a request is accepted: the search of the list gives the box \<open>b\<close>, its name is
  the path of the file \<open>i\<close> with the contents \<open>c\<close>, and there are a handle and a block left.\<close>

definition box_found :: "broker \<Rightarrow> byte list \<Rightarrow> nat \<Rightarrow> box_node \<Rightarrow> bool" where
  "box_found s box_name b n \<longleftrightarrow> terminated box_name \<and> nodes (io_boxes s) b = Some n \<and>
     (\<exists>hd as. bk_head s = Some hd \<and> box_list (io_boxes s) hd as \<and>
        List.find (\<lambda>a. name_of_box (io_boxes s) a \<noteq> cstr box_name) as = Some b)"

definition file_ready :: "fs_state \<Rightarrow> byte list \<Rightarrow> nat \<Rightarrow> byte list \<Rightarrow> bool" where
  "file_ready fs name i c \<longleftrightarrow> fs_inv fs \<and> a_file (absf fs) i = Some c \<and>
     (case path_name name of None \<Rightarrow> False | Some nm \<Rightarrow> a_dir (absf fs) nm = Some i) \<and>
     \<not> sp_no_space (fs_params fs) (absf fs) \<and>
     least_free (\<lambda>h. a_open (absf fs) h \<noteq> None) (unat (max_open_files_count (fs_params fs))) \<noteq> None"

lemma box_foundD:
  assumes "box_found s box_name b n"
  shows "find_box (bk_head s) box_name (io_boxes s) = Some (Inr (Some b))"
    and "load_node (io_boxes s) (Some b) = Inr n" and "terminated (b_name n)"
proof -
  obtain hd as where l: "bk_head s = Some hd" "box_list (io_boxes s) hd as"
    "List.find (\<lambda>a. name_of_box (io_boxes s) a \<noteq> cstr box_name) as = Some b"
    and n: "nodes (io_boxes s) b = Some n" and t: "terminated box_name"
    using assms by (auto simp: box_found_def)
  show "find_box (bk_head s) box_name (io_boxes s) = Some (Inr (Some b))"
    using find_box_eq [OF l(2) t] l(1,3) by simp
  show "load_node (io_boxes s) (Some b) = Inr n" using n by (simp add: load_node_def)
  have "b \<in> set as" using l(3) by (auto simp: find_Some_iff)
  then show "terminated (b_name n)" using l(2) n by (auto simp: box_list_def named_boxes_def)
qed

lemma sp_open_append:
  assumes "path_name name = Some nm" and "a_dir A nm = Some i" and "a_file A i = Some c"
    and "least_free (\<lambda>h. a_open A h \<noteq> None) (unat (max_open_files_count p)) = Some h"
  shows "sp_open p (Some name) TFS_O_APPEND A = (int h, A\<lparr>a_open := (a_open A)(h \<mapsto> (i, length c))\<rparr>)"
  using assms
  by (simp add: sp_open_def sp_handle_def sp_content_def has_flag_def TFS_O_APPEND_def TFS_O_TRUNC_def Let_def)

lemma open_append:
  assumes "file_ready fs name i c" and "terminated name"
  shows "\<exists>h fs'. tfs_open (Some name) TFS_O_APPEND fs = Inr (int h, fs') \<and> fs_inv fs' \<and> fs_params fs' = fs_params fs \<and>
           a_open (absf fs) h = None \<and>
           absf fs' = (absf fs)\<lparr>a_open := (a_open (absf fs))(h \<mapsto> (i, length c))\<rparr>"
proof -
  obtain nm where nm: "path_name name = Some nm" "a_dir (absf fs) nm = Some i"
    using assms(1) by (auto simp: file_ready_def split: option.splits)
  obtain h where h: "least_free (\<lambda>h. a_open (absf fs) h \<noteq> None) (unat (max_open_files_count (fs_params fs))) = Some h"
    using assms(1) by (auto simp: file_ready_def)
  have inv: "fs_inv fs" using assms(1) by (simp add: file_ready_def)
  have "call_ok (fs_params fs) (Open (Some name) TFS_O_APPEND) (absf fs)"
    using assms(2) by (simp add: has_flag_def TFS_O_APPEND_def TFS_O_TRUNC_def)
  from refine_open [OF inv this] obtain r fs' where
    op: "tfs_open (Some name) TFS_O_APPEND fs = Inr (r, fs')" "fs_inv fs'" "fs_params fs' = fs_params fs"
      "sp_open (fs_params fs) (Some name) TFS_O_APPEND (absf fs) = (r, absf fs')"
    by (auto simp: refines_def)
  have "a_file (absf fs) i = Some c" using assms(1) by (simp only: file_ready_def)
  from sp_open_append [OF nm this h] op(4) have
    r: "r = int h" "absf fs' = (absf fs)\<lparr>a_open := (a_open (absf fs))(h \<mapsto> (i, length c))\<rparr>" by simp_all
  have "a_open (absf fs) h = None" using least_free_SomeD [OF h] by blast
  then show ?thesis using op(1-3) r by (intro exI [of _ h] exI [of _ fs']) simp
qed

text \<open>The write of the last round, through the handle at the end of the file.\<close>

lemma sp_write_append:
  assumes "sp_lookup A z = Some (i, length c)" and "sp_content A i = c"
    and "min (unat l) (unat (block_size p) - length c) = n" and "0 < n" and "\<not> sp_no_space p A"
  shows "snd (sp_write p z m l A) =
      A\<lparr>a_file := (a_file A)(i \<mapsto> c @ take n m), a_open := (a_open A)(nat z \<mapsto> (i, length c + n))\<rparr>"
  using assms(1,2,4,5) by (simp add: sp_write_def assms(3) Let_def write_at_def)

lemma store_append:
  assumes "fs_inv (bk_fs s)" and "request_ok req" and "terminated (rq_error_message req)"
    and "a_open (absf (bk_fs s)) h = Some (i, length c)" and "a_file (absf (bk_fs s)) i = Some c"
    and "\<not> sp_no_space (fs_params (bk_fs s)) (absf (bk_fs s))"
  shows "\<exists>fs off. store_message (int h) req s = Inr (s\<lparr>bk_fs := fs\<rparr>) \<and> fs_inv fs \<and>
           absf fs = (absf (bk_fs s))\<lparr>
             a_file := (a_file (absf (bk_fs s)))(i \<mapsto> c @ take (unat (block_size (fs_params (bk_fs s))) - length c)
                          (cstr (rq_error_message req))),
             a_open := (a_open (absf (bk_fs s)))(h \<mapsto> (i, off))\<rparr>"
proof -
  let ?p = "fs_params (bk_fs s)" and ?A = "absf (bk_fs s)" and ?text = "cstr (rq_error_message req)"
  let ?n = "min (length ?text) (unat (block_size ?p) - length c)"
  obtain fs w m where fs: "store_message (int h) req s = Inr (s\<lparr>bk_fs := fs\<rparr>)" "fs_inv fs"
    "take (length ?text) m = ?text" "sp_write ?p (int h) m (of_nat (length ?text)) ?A = (w, absf fs)"
    using store_message_refines(1) [OF assms(1-3), of "int h"] by blast
  note u = store_message_refines(2) [OF assms(1-3)]
  have cut: "take ?n m = take (unat (block_size ?p) - length c) ?text"
    using take_prefix [OF fs(3), of ?n] by (simp add: min_def)
  have look: "sp_lookup ?A (int h) = Some (i, length c)" "sp_content ?A i = c"
    using assms(4,5) by (simp_all add: sp_lookup_def sp_content_def)
  have "snd (sp_write ?p (int h) m (of_nat (length ?text)) ?A) =
      ?A\<lparr>a_file := (a_file ?A)(i \<mapsto> c @ take ?n m), a_open := (a_open ?A)(h \<mapsto> (i, length c + ?n))\<rparr>"
  proof (cases "?n = 0")
    case True
    have "(a_file ?A)(i \<mapsto> c) = a_file ?A" "(a_open ?A)(h \<mapsto> (i, length c)) = a_open ?A"
      using assms(4,5) by (simp_all add: fun_upd_idem)
    then show ?thesis using look u True by (simp add: sp_write_def)
  next
    case False
    then have "0 < ?n" by simp
    from sp_write_append [OF look _ this assms(6)] u show ?thesis by simp
  qed
  then show ?thesis using fs cut by auto
qed

lemma close_handle:
  assumes "fs_inv fs" and "a_open (absf fs) h \<noteq> None"
  shows "\<exists>r fs'. tfs_close (int h) fs = Inr (r, fs') \<and> fs_inv fs' \<and>
           absf fs' = (absf fs)\<lparr>a_open := (a_open (absf fs))(h := None)\<rparr>"
proof -
  obtain r fs' where "tfs_close (int h) fs = Inr (r, fs')" "fs_inv fs'" "sp_close (int h) (absf fs) = (r, absf fs')"
    using refine_close [OF assms(1), of "int h"] by (auto simp: refines_def)
  then show ?thesis using assms(2)
    by (intro exI [of _ r] exI [of _ fs']) (auto simp: sp_close_def sp_lookup_def)
qed

text \<open>The loop of a session through a handle at the end of the file.\<close>

lemma session_stores:
  assumes "fs_inv (bk_fs s)" and "a_open (absf (bk_fs s)) h = Some (i, length c)" and "a_file (absf (bk_fs s)) i = Some c"
    and "\<not> sp_no_space (fs_params (bk_fs s)) (absf (bk_fs s))"
    and "\<forall>ev \<in> set idle. idle_read ev" and "ends_session ev"
    and "request_ok (event_fill ev zero_request)" and "terminated (rq_error_message (event_fill ev zero_request))"
  shows "\<exists>fs off. pub_session (idle @ ev # evs) (int h) zero_request s =
             Inr (True, (closing evs s)\<lparr>bk_fs := fs\<rparr>) \<and> fs_inv fs \<and>
           absf fs = (absf (bk_fs s))\<lparr>
             a_file := (a_file (absf (bk_fs s)))(i \<mapsto> c @ take (unat (block_size (fs_params (bk_fs s))) - length c)
                          (cstr (rq_error_message (event_fill ev zero_request)))),
             a_open := (a_open (absf (bk_fs s)))(h \<mapsto> (i, off))\<rparr>"
proof -
  have zero: "request_ok zero_request" "terminated (rq_error_message zero_request)"
    "cstr (rq_error_message zero_request) = []"
    by (simp_all add: zero_request_def request_ok_def MAX_MESSAGE_def eval_nat_numeral)
  obtain fs e rs where r: "fs_inv fs" "fs_params fs = fs_params (bk_fs s)" "absf fs = absf (bk_fs s)"
    "pub_session (idle @ ev # evs) (int h) zero_request s =
       pub_session (ev # evs) (int h) zero_request (s\<lparr>bk_fs := fs, io_errno := e, io_reads := rs\<rparr>)"
    using idle_rounds [OF assms(5,1) zero] by blast
  let ?s = "(closing evs s)\<lparr>bk_fs := fs\<rparr>"
  obtain fs' off where w: "store_message (int h) (event_fill ev zero_request) ?s = Inr (?s\<lparr>bk_fs := fs'\<rparr>)" "fs_inv fs'"
    "absf fs' = (absf (bk_fs s))\<lparr>
       a_file := (a_file (absf (bk_fs s)))(i \<mapsto> c @ take (unat (block_size (fs_params (bk_fs s))) - length c)
                    (cstr (rq_error_message (event_fill ev zero_request)))),
       a_open := (a_open (absf (bk_fs s)))(h \<mapsto> (i, off))\<rparr>"
    using store_append [of ?s "event_fill ev zero_request" h i c] assms r(1-3) by auto
  show ?thesis
    unfolding r(4) last_round [OF assms(6)] using w by (intro exI [of _ fs'] exI [of _ off]) simp
qed

lemma no_space_handles: "sp_no_space p (A\<lparr>a_open := f\<rparr>) = sp_no_space p A"
  by (simp add: sp_no_space_def sp_files_def sp_content_def)


definition session_node :: box_node where
  "session_node = \<lparr>b_name = [47, 102, 0] @ replicate 30 0, b_last = 0, b_size = BOX_SIZE, b_publishers = 0,
     b_subscribers = 0, b_next = None\<rparr>"

definition last_message :: io_event where
  "last_message = \<lparr>ev_data = Some (request_bytes (sample_request M_PUB 65 0)), ev_errno = EAGAIN, ev_sigint = False\<rparr>"

definition end_of_file :: io_event where
  "end_of_file = \<lparr>ev_data = Some [], ev_errno = 0, ev_sigint = False\<rparr>"

definition session_broker :: broker where
  "session_broker = demo_broker\<lparr>bk_fs := demo_after [Open path_f TFS_O_CREAT, Close 0], bk_head := Some 2,
     io_reads := [end_of_file, last_message],
     io_boxes := \<lparr>nodes = [4 \<mapsto> session_node], cells = [2 \<mapsto> Some 4]\<rparr>\<rparr>"

lemma session_found:
  assumes "b_name n = b_name session_node" and "b_next n = None"
  shows "box_found (session_broker\<lparr>io_boxes := \<lparr>nodes = [4 \<mapsto> n], cells = [2 \<mapsto> Some 4]\<rparr>\<rparr>) [120, 0] 4 n"
  unfolding box_found_def
  by (intro conjI exI [of _ 2] exI [of _ "[4]"])
    (use assms in \<open>simp_all add: session_broker_def session_node_def box_list_def named_boxes_def name_of_box_def\<close>)

lemma session_broker_facts:
  "box_found session_broker [120, 0] 4 session_node"
  "file_ready (bk_fs session_broker) (b_name session_node) 1 []"
  "io_opens session_broker = (5, 0) # []" "io_reads session_broker = [end_of_file] @ last_message # []"
  "unat (block_size (fs_params (bk_fs session_broker))) = 128"
proof -
  let ?cs = "[Open path_f TFS_O_CREAT, Close 0]"
  have ok: "allowed small_params ?cs empty_afs" by code_simp
  note st = demo_after_facts [OF ok]
  have "cstr (b_name session_node) = [47, 102]" "terminated (b_name session_node)"
    by (simp_all add: session_node_def)
  then have name: "path_name (b_name session_node) = Some [102]" "terminated (b_name session_node)"
    "cstr (b_name session_node) = [47, 102]"
    by (simp_all add: path_name_def SLASH_def)
  show "box_found session_broker [120, 0] 4 session_node"
    using session_found [of session_node] by (simp add: session_node_def session_broker_def)
  have fs: "bk_fs session_broker = demo_after ?cs" by (simp add: session_broker_def)
  have "a_file (absf (demo_after ?cs)) 1 = Some []" unfolding st(3) by code_simp
  moreover have "a_dir (absf (demo_after ?cs)) [102] = Some 1" unfolding st(3) by code_simp
  moreover have "\<not> sp_no_space small_params (absf (demo_after ?cs))" unfolding st(3) by code_simp
  moreover have "least_free (\<lambda>h. a_open (absf (demo_after ?cs)) h \<noteq> None) (unat (max_open_files_count small_params)) \<noteq> None"
    unfolding st(3) by code_simp
  ultimately show "file_ready (bk_fs session_broker) (b_name session_node) 1 []"
    using st(1,2) name(1) by (simp add: file_ready_def fs)
  show "unat (block_size (fs_params (bk_fs session_broker))) = 128" unfolding fs st(2) by (simp add: small_params_def)
qed (simp_all add: session_broker_def demo_broker_def)


subsection \<open>Who is refused\<close>

text \<open>A box has at most one publisher: with a publisher in a session on the box, a second one is
  turned away with nothing changed but its own pipe opened and closed again.\<close>

theorem second_publisher_refused:
  assumes "box_found s box_name b n" and "b_publishers n = 1"
    and "io_opens s = (fd, e) # os" and "fd \<noteq> - 1"
  shows "codeR_PUB p box_name s = Inr (s\<lparr>io_opens := os, io_errno := e\<rparr>)"
  using box_foundD [OF assms(1)] assms(2-4)
  by (simp add: codeR_PUB_def sys_open_eq after_open_def sys_close_def)

theorem second_publisher_refused_witness:
  "codeR_PUB [0] [120, 0] (session_broker\<lparr>io_boxes :=
      \<lparr>nodes = [4 \<mapsto> session_node\<lparr>b_publishers := 1\<rparr>], cells = [2 \<mapsto> Some 4]\<rparr>\<rparr>) =
   Inr (session_broker\<lparr>io_boxes := \<lparr>nodes = [4 \<mapsto> session_node\<lparr>b_publishers := 1\<rparr>], cells = [2 \<mapsto> Some 4]\<rparr>,
      io_opens := [], io_errno := 0\<rparr>)"
proof -
  let ?s = "session_broker\<lparr>io_boxes := \<lparr>nodes = [4 \<mapsto> session_node\<lparr>b_publishers := 1\<rparr>], cells = [2 \<mapsto> Some 4]\<rparr>\<rparr>"
  have "box_found ?s [120, 0] 4 (session_node\<lparr>b_publishers := 1\<rparr>)"
    by (rule session_found) (simp_all add: session_node_def)
  from second_publisher_refused [OF this _ _, of 5 0 "[]" "[0]"] show ?thesis
    by (simp add: session_broker_facts)
qed

subsection \<open>Subscribers\<close>

text \<open>Nothing in the broker ever counts a subscriber.\<close>

definition no_subscribers :: "box_store \<Rightarrow> bool" where
  "no_subscribers st \<longleftrightarrow> (\<forall>a n. nodes st a = Some n \<longrightarrow> b_subscribers n = 0)"

abbreviation unsubscribed :: "broker \<Rightarrow> bool" where
  "unsubscribed s \<equiv> no_subscribers (io_boxes s)"

lemma load_unsubscribed: "no_subscribers st \<Longrightarrow> load_node st b = Inr n \<Longrightarrow> b_subscribers n = 0"
  by (auto simp: no_subscribers_def load_node_def split: option.splits)

lemma returns_set_publishers_subs: "unsubscribed s \<Longrightarrow> returns unsubscribed (set_publishers b k s)"
  by (auto simp: set_publishers_def returns_def res_iff no_subscribers_def load_node_def store_node_def
      split: option.splits if_splits)

lemma returns_pub_session_subs: "unsubscribed s \<Longrightarrow> returns (\<lambda>(_, s'). unsubscribed s') (pub_session evs h r s)"
proof (induction evs arbitrary: r s)
  case (Cons ev evs)
  have "returns unsubscribed (deliver ev (s\<lparr>io_reads := evs\<rparr>))"
    using Cons.prems by (simp add: returns_def Mbroker.deliver_eq)
  moreover have "returns unsubscribed (store_message h r' s')" if "unsubscribed s'" for r' s'
    using that by (auto simp: returns_def store_message_def Let_def res_iff)
  ultimately show ?case
    unfolding pub_session.simps Let_def
    by (intro returns_bind [where Q = unsubscribed] returns_rules Cons.IH) auto
qed (simp add: returns_def)

lemma returns_open_subs:
  assumes "unsubscribed s" and "\<And>fd s2. unsubscribed s2 \<Longrightarrow> returns P (g fd s2)"
  shows "returns P (res_bind (sys_open s) (\<lambda>(fd, s2). g fd s2))"
  using assms by (simp add: sys_open_eq returns_basic)

lemma bind_pub_session_subs:
  assumes "unsubscribed s" and "\<And>ok s2. unsubscribed s2 \<Longrightarrow> returns P (g ok s2)"
  shows "returns P (res_bind (pub_session evs h r s) (\<lambda>(ok, s2). g ok s2))"
  by (rule returns_bind [OF returns_pub_session_subs [OF assms(1)]]) (use assms(2) in auto)

lemmas bind_subs =
  returns_open_subs bind_pub_session_subs returns_bind [OF returns_set_publishers_subs] bind_request bind_err_line

lemma returns_handlers_subs:
  assumes "unsubscribed s"
  shows "returns unsubscribed (codeR_PUB p b s)" and "returns unsubscribed (codeC_BOX p b s)"
    and "returns unsubscribed (codeR_BOX p b s)" and "returns unsubscribed (codeL_BOX p s)"
  unfolding codeR_PUB_def codeC_BOX_def codeR_BOX_def codeL_BOX_def
  by (rule bind_subs returns_bind [OF returns_list_boxes] returns_rules returns_set_publishers_subs returns_any
      | (simp add: assms; fail) | (auto simp: assms; fail))+

text \<open>The handler of a subscription returns without having looked at the file system.\<close>

lemma codeR_SUB_refuses:
  assumes "unsubscribed s" and "codeR_SUB p b s = Inr s'"
  shows "io_boxes s' = io_boxes s" and "bk_fs s' = bk_fs s"
  using assms load_unsubscribed
  by (auto simp: codeR_SUB_def sys_open_eq res_iff split: if_splits)



subsection \<open>Managers\<close>

lemma bind_opened:
  assumes "fst (hd (io_opens s)) \<noteq> - 1" and "returns P (h (fst (hd (io_opens s))) (after_open s))"
  shows "returns P (res_bind (sys_open s) (\<lambda>(fd, t). if fd = - 1 then g fd t else h fd t))"
  using assms by (simp add: sys_open_eq returns_basic)

text \<open>Once the pipe of the manager is open, no way through these handlers returns, but for the
  listing of an empty list.\<close>

lemma returns_manager:
  assumes "fst (hd (io_opens s)) \<noteq> - 1"
  shows "returns (\<lambda>_. False) (codeC_BOX p b s)" and "returns (\<lambda>_. False) (codeR_BOX p b s)"
    and "returns (\<lambda>t. load_cell (io_boxes s) (bk_head s) = Inr None \<and>
           t = sys_close (fst (hd (io_opens s))) (after_open s)) (codeL_BOX p s)"
proof -
  show "returns (\<lambda>_. False) (codeC_BOX p b s)"
    unfolding codeC_BOX_def by (rule bind_opened [OF assms] bind_request returns_rules returns_any)+
  show "returns (\<lambda>_. False) (codeR_BOX p b s)"
    unfolding codeR_BOX_def Let_def by (rule bind_opened [OF assms] bind_request returns_rules returns_any)+
  have list: "returns (\<lambda>(done, t). done = (aux = None) \<and> aux = None \<and> t = u) (list_boxes ws fd l aux u)" for ws fd l aux u
    by (cases ws) (auto intro!: returns_rules returns_bind [OF returns_list_message])
  show "returns (\<lambda>t. load_cell (io_boxes s) (bk_head s) = Inr None \<and>
      t = sys_close (fst (hd (io_opens s))) (after_open s)) (codeL_BOX p s)"
    unfolding codeL_BOX_def
  proof (rule bind_opened [OF assms], rule returns_basic)
    show "returns (\<lambda>t. load_cell (io_boxes s) (bk_head s) = Inr None \<and> t = sys_close fd (after_open s))
        (res_bind (load_cell (io_boxes (after_open s)) (bk_head (after_open s))) (\<lambda>aux.
         res_bind (list_boxes (io_writes (after_open s)) fd 0 aux (after_open s)) (\<lambda>(completed, s).
           Inr (if completed then sys_close fd s else s))))" for fd
    proof (cases "load_cell (io_boxes s) (bk_head s)")
      case (Inr aux)
      then show ?thesis using list by (auto simp: returns_def res_iff) (fastforce)+
    qed (simp add: returns_def)
  qed (rule bind_request returns_rules returns_any)+
qed



end
