(* ===== verification/Pipe.thy ===== *)
theory Pipe
  imports Posix "HOL-Library.Sublist"
begin

text \<open>
  A named pipe with several writers and one reader, such as the register pipe, into which every
  client writes its request and from which the loop of \<open>main\<close> of \<open>mbroker/mbroker.c\<close> reads
  \<open>sizeof (request)\<close> bytes at a time. The pipe is the system's; the steps are what its
  documentation promises: a write of at most \<open>PIPE_BUF\<close> bytes is not mixed with others and waits
  while there is no room for it, and a read takes what is there, at most as much as it asks for.
\<close>

subsection \<open>Steps\<close>

definition PIPE_BUF :: nat where "PIPE_BUF = 4096"
definition PIPE_CAP :: nat where "PIPE_CAP = 65536"

text \<open>\<open>rp_todo\<close> has for each writer what it will write, one list of bytes per \<open>write\<close>; \<open>rp_sent\<close>
  and \<open>rp_read\<close> are the writes and the results of the reads so far.\<close>

record reg_pipe =
  rp_bytes :: "byte list"
  rp_todo :: "byte list list list"
  rp_sent :: "(nat \<times> byte list) list"
  rp_read :: "byte list list"

definition pipe_start :: "byte list list list \<Rightarrow> reg_pipe" where
  "pipe_start clients = \<lparr>rp_bytes = [], rp_todo = clients, rp_sent = [], rp_read = []\<rparr>"

inductive pipe_step :: "reg_pipe \<Rightarrow> reg_pipe \<Rightarrow> bool" where
  put: "i < length (rp_todo p) \<Longrightarrow> rp_todo p ! i = w # ws \<Longrightarrow> length w \<le> PIPE_BUF \<Longrightarrow>
     length (rp_bytes p) + length w \<le> PIPE_CAP \<Longrightarrow>
     pipe_step p (p\<lparr>rp_bytes := rp_bytes p @ w, rp_todo := (rp_todo p)[i := ws],
                    rp_sent := rp_sent p @ [(i, w)]\<rparr>)"
| get: "rp_bytes p \<noteq> [] \<Longrightarrow>
     pipe_step p (p\<lparr>rp_bytes := drop sizeof_request (rp_bytes p),
                    rp_read := rp_read p @ [take sizeof_request (rp_bytes p)]\<rparr>)"

inductive pipe_reach :: "reg_pipe \<Rightarrow> reg_pipe \<Rightarrow> bool" where
  start: "pipe_reach p p"
| step: "pipe_reach p p' \<Longrightarrow> pipe_step p' p'' \<Longrightarrow> pipe_reach p p''"

text \<open>The read of the broker that brings these bytes.\<close>

definition arrives :: "byte list \<Rightarrow> io_event" where
  "arrives bs = \<lparr>ev_data = Some bs, ev_errno = 0, ev_sigint = False\<rparr>"

definition writes_by :: "nat \<Rightarrow> (nat \<times> 'a) list \<Rightarrow> 'a list" where
  "writes_by i es = map snd (filter (\<lambda>e. fst e = i) es)"

lemma writes_by_simps [simp]:
  "writes_by i [] = []" "writes_by i (es @ fs) = writes_by i es @ writes_by i fs"
  "writes_by i ((j, w) # es) = (if j = i then w # writes_by i es else writes_by i es)"
  by (auto simp: writes_by_def)

lemma writes_by_map: "writes_by i (map (\<lambda>(j, w). (j, f w)) es) = map f (writes_by i es)"
  by (induction es) (auto simp: writes_by_def)

lemma writes_by_take: "prefix (writes_by i (take k es)) (writes_by i es)"
  by (metis append_take_drop_id prefixI writes_by_simps(2))

subsection \<open>Invariants\<close>

text \<open>Nothing is lost, invented or reordered; each writer has written the first of its writes.\<close>

definition pipe_flow :: "byte list list list \<Rightarrow> reg_pipe \<Rightarrow> bool" where
  "pipe_flow clients p \<longleftrightarrow> concat (rp_read p) @ rp_bytes p = concat (map snd (rp_sent p)) \<and>
     length (rp_todo p) = length clients \<and> (\<forall>e \<in> set (rp_sent p). fst e < length clients) \<and>
     (\<forall>i < length clients. writes_by i (rp_sent p) @ rp_todo p ! i = clients ! i)"

lemma pipe_flow_step: "pipe_step p p' \<Longrightarrow> pipe_flow clients p \<Longrightarrow> pipe_flow clients p'"
proof (induction rule: pipe_step.induct)
  case (put i p w ws)
  then show ?case by (auto simp: pipe_flow_def nth_list_update)
next
  case (get p)
  then show ?case by (auto simp: pipe_flow_def)
qed

text \<open>When every write has the size of the reads, each read gives one write.\<close>

definition pipe_framed :: "reg_pipe \<Rightarrow> bool" where
  "pipe_framed p \<longleftrightarrow> (\<exists>k. rp_read p = map snd (take k (rp_sent p)) \<and>
     rp_bytes p = concat (map snd (drop k (rp_sent p))) \<and> k \<le> length (rp_sent p))"

definition pipe_whole :: "reg_pipe \<Rightarrow> bool" where
  "pipe_whole p \<longleftrightarrow> (\<forall>ws \<in> set (rp_todo p). \<forall>w \<in> set ws. length w = sizeof_request) \<and>
     (\<forall>e \<in> set (rp_sent p). length (snd e) = sizeof_request)"

lemma pipe_framed_step:
  assumes "pipe_step p p'" and "pipe_framed p \<and> pipe_whole p"
  shows "pipe_framed p' \<and> pipe_whole p'"
  using assms
proof (induction rule: pipe_step.induct)
  case (put i p w ws)
  have "rp_todo p ! i \<in> set (rp_todo p)" using put(1) by simp
  then have w: "length w = sizeof_request" "\<forall>v \<in> set ws. length v = sizeof_request"
    using put(2,5) by (auto simp: pipe_whole_def)
  obtain k where k: "rp_read p = map snd (take k (rp_sent p))"
    "rp_bytes p = concat (map snd (drop k (rp_sent p)))" "k \<le> length (rp_sent p)"
    using put(5) by (auto simp: pipe_framed_def)
  have "pipe_framed (p\<lparr>rp_bytes := rp_bytes p @ w, rp_todo := (rp_todo p)[i := ws],
      rp_sent := rp_sent p @ [(i, w)]\<rparr>)"
    unfolding pipe_framed_def using k by (intro exI [of _ k]) simp
  then show ?case
    using put(5) w set_update_subset_insert [of "rp_todo p" i ws] by (fastforce simp: pipe_whole_def)
next
  case (get p)
  obtain k where k: "rp_read p = map snd (take k (rp_sent p))"
    "rp_bytes p = concat (map snd (drop k (rp_sent p)))" "k \<le> length (rp_sent p)"
    using get(2) by (auto simp: pipe_framed_def)
  have "k < length (rp_sent p)" using k get(1) by (cases "k = length (rp_sent p)") auto
  then have next_w: "drop k (rp_sent p) = rp_sent p ! k # drop (Suc k) (rp_sent p)"
    "take (Suc k) (rp_sent p) = take k (rp_sent p) @ [rp_sent p ! k]" "rp_sent p ! k \<in> set (rp_sent p)"
    by (simp_all add: Cons_nth_drop_Suc take_Suc_conv_app_nth)
  then have "length (snd (rp_sent p ! k)) = sizeof_request" using get(2) by (auto simp: pipe_whole_def)
  then have "pipe_framed (p\<lparr>rp_bytes := drop sizeof_request (rp_bytes p),
      rp_read := rp_read p @ [take sizeof_request (rp_bytes p)]\<rparr>)"
    unfolding pipe_framed_def using k next_w \<open>k < length (rp_sent p)\<close>
    by (intro exI [of _ "Suc k"]) simp
  then show ?case using get(2) by (simp add: pipe_whole_def)
qed

lemma pipe_reach_flow:
  assumes "pipe_reach p p'" and "pipe_flow clients p"
  shows "pipe_flow clients p'"
  using assms by (induction rule: pipe_reach.induct) (auto intro: pipe_flow_step)

lemma pipe_reach_framed:
  assumes "pipe_reach p p'" and "pipe_framed p \<and> pipe_whole p"
  shows "pipe_framed p' \<and> pipe_whole p'"
  using assms by (induction rule: pipe_reach.induct) (auto dest: pipe_framed_step)

lemma pipe_start_inv:
  "pipe_flow clients (pipe_start clients)"
  "\<forall>ws \<in> set clients. \<forall>w \<in> set ws. length w = sizeof_request \<Longrightarrow>
     pipe_framed (pipe_start clients) \<and> pipe_whole (pipe_start clients)"
  by (simp_all add: pipe_flow_def pipe_framed_def pipe_whole_def pipe_start_def)

subsection \<open>Properties\<close>

text \<open>The requests of clients as writes: each is one \<open>write\<close> of the whole structure.\<close>

definition request_writes :: "request list list \<Rightarrow> byte list list list" where
  "request_writes clients = map (map request_bytes) clients"

definition requests_ok :: "request list list \<Rightarrow> bool" where
  "requests_ok clients \<longleftrightarrow> (\<forall>rs \<in> set clients. \<forall>r \<in> set rs. request_ok r)"

lemma map_read_back: "\<forall>r \<in> set rs. request_ok r \<Longrightarrow> map (bytes_request \<circ> request_bytes) rs = rs"
  by (induction rs) (simp_all add: request_round_trip)

lemma pipe_requests:
  assumes "requests_ok clients" and "pipe_reach (pipe_start (request_writes clients)) p"
  shows "\<exists>rs. rp_read p = map (request_bytes \<circ> snd) rs \<and> (\<forall>e \<in> set rs. request_ok (snd e)) \<and>
           (\<forall>i < length clients. prefix (writes_by i rs) (clients ! i))"
proof -
  have whole: "\<forall>ws \<in> set (request_writes clients). \<forall>w \<in> set ws. length w = sizeof_request"
    using assms(1) by (auto simp: request_writes_def requests_ok_def length_request_bytes)
  note flow = pipe_reach_flow [OF assms(2) pipe_start_inv(1)]
  obtain k where k: "rp_read p = map snd (take k (rp_sent p))"
    using pipe_reach_framed [OF assms(2) pipe_start_inv(2) [OF whole]] by (auto simp: pipe_framed_def)
  have by_i: "prefix (writes_by i (rp_sent p)) (map request_bytes (clients ! i))" if "i < length clients" for i
  proof -
    have "writes_by i (rp_sent p) @ rp_todo p ! i = map request_bytes (clients ! i)"
      using flow that by (simp add: pipe_flow_def request_writes_def)
    then show ?thesis by (metis prefixI)
  qed
  define rs where "rs = map (\<lambda>(i, w). (i, bytes_request w)) (take k (rp_sent p))"
  have sent: "\<exists>r. request_ok r \<and> w = request_bytes r" if "(i, w) \<in> set (rp_sent p)" for i w
  proof -
    have i: "i < length clients" using flow that by (auto simp: pipe_flow_def request_writes_def)
    have "w \<in> set (writes_by i (rp_sent p))" using that by (force simp: writes_by_def)
    then have "w \<in> request_bytes ` set (clients ! i)" using set_mono_prefix [OF by_i [OF i]] by auto
    then show ?thesis using assms(1) i nth_mem by (fastforce simp: requests_ok_def)
  qed
  then have sent_k: "\<exists>r. request_ok r \<and> w = request_bytes r" if "(i, w) \<in> set (take k (rp_sent p))" for i w
    using that by (meson in_set_takeD)
  have written: "request_bytes (bytes_request (snd e)) = snd e" if "e \<in> set (take k (rp_sent p))" for e
    using sent_k [of "fst e" "snd e"] that by (auto simp: request_round_trip)
  have "rp_read p = map (request_bytes \<circ> snd) rs"
    unfolding k rs_def by (simp add: written split_beta)
  moreover have "\<forall>e \<in> set rs. request_ok (snd e)"
    using sent_k by (fastforce simp: rs_def request_round_trip)
  moreover have "prefix (writes_by i rs) (clients ! i)" if i: "i < length clients" for i
  proof -
    have "prefix (writes_by i (take k (rp_sent p))) (map request_bytes (clients ! i))"
      using by_i [OF i] writes_by_take prefix_order.trans by blast
    then have "prefix (writes_by i rs) (map bytes_request (map request_bytes (clients ! i)))"
      unfolding rs_def writes_by_map by (rule map_mono_prefix)
    moreover have "\<forall>r \<in> set (clients ! i). request_ok r" using assms(1) i by (auto simp: requests_ok_def)
    ultimately show ?thesis using map_read_back [of "clients ! i"] by simp
  qed
  ultimately show ?thesis by blast
qed

text \<open>One client, one write, one read.\<close>

lemma pipe_one:
  assumes "request_ok r"
  shows "pipe_reach (pipe_start (request_writes [[r]]))
           \<lparr>rp_bytes = [], rp_todo = [[]], rp_sent = [(0, request_bytes r)], rp_read = [request_bytes r]\<rparr>"
proof -
  let ?p0 = "pipe_start (request_writes [[r]])"
  let ?p1 = "\<lparr>rp_bytes = request_bytes r, rp_todo = [[]], rp_sent = [(0, request_bytes r)], rp_read = []\<rparr>"
  have len: "length (request_bytes r) = sizeof_request" using assms by (rule length_request_bytes)
  have s1: "pipe_step ?p0 ?p1"
    using pipe_step.put [of 0 ?p0 "request_bytes r" "[]"] len
    by (simp add: pipe_start_def request_writes_def PIPE_BUF_def PIPE_CAP_def sizeof_request_def)
  have "request_bytes r \<noteq> []" by (simp add: request_bytes_def)
  then have s2: "pipe_step ?p1 (?p1\<lparr>rp_bytes := [], rp_read := [request_bytes r]\<rparr>)"
    using pipe_step.get [of ?p1] len by simp
  from pipe_reach.step [OF pipe_reach.step [OF pipe_reach.start s1] s2] show ?thesis by simp
qed

lemma hd_request_bytes: "hd (request_bytes r) = rq_code r"
  by (simp add: request_bytes_def)

lemma read_code: "bs \<noteq> [] \<Longrightarrow> rq_code (read_request bs old) = hd bs"
  by (cases bs) (simp_all add: read_request_def bytes_request_def overwrite_def bytes_at_def)



end
