(* ===== verification/Logging.thy ===== *)
theory Logging
  imports Prelude "HOL-Library.Sublist"
begin

text \<open>
  The diagnostics of the program: \<open>utils/logging.h\<close>, \<open>utils/logging.c\<close> and \<open>ALWAYS_ASSERT\<close> of
  \<open>utils/betterassert.h\<close>. Each macro is a function of the place where it stands (\<open>position\<close>), the
  text that its format and arguments give, and the state: the level, \<open>errno\<close> and the lines on
  \<open>stderr\<close>. A macro that calls \<open>exit\<close> gives its argument. What \<open>strerror\<close> says about an error
  number is the C library's; it is the parameter \<open>strerr\<close>.
\<close>

subsection \<open>Levels\<close>

datatype log_level_t = LOG_QUIET | LOG_NORMAL | LOG_VERBOSE

fun level_value :: "log_level_t \<Rightarrow> nat" where
  "level_value LOG_QUIET = 0"
| "level_value LOG_NORMAL = 1"
| "level_value LOG_VERBOSE = 2"

lemma level_value_eq [simp]: "level_value a = level_value b \<longleftrightarrow> a = b"
  by (cases a; cases b) auto

instantiation log_level_t :: linorder
begin

definition less_eq_log_level_t :: "log_level_t \<Rightarrow> log_level_t \<Rightarrow> bool" where
  "a \<le> b \<longleftrightarrow> level_value a \<le> level_value b"

definition less_log_level_t :: "log_level_t \<Rightarrow> log_level_t \<Rightarrow> bool" where
  "a < b \<longleftrightarrow> level_value a < level_value b"

instance
  by standard (auto simp: less_eq_log_level_t_def less_log_level_t_def order_antisym)

end

lemma level_bounds [simp]: "LOG_QUIET \<le> l" "l \<le> LOG_VERBOSE" "LOG_VERBOSE \<le> l \<longleftrightarrow> l = LOG_VERBOSE"
  "LOG_NORMAL \<le> l \<longleftrightarrow> l = LOG_NORMAL \<or> l = LOG_VERBOSE"
  by (cases l; simp add: less_eq_log_level_t_def)+

subsection \<open>State and text\<close>

record log_state =
  g_level :: log_level_t
  log_errno :: int
  log_stderr :: "string list"

text \<open>The state when the program starts: nothing printed, and the initial value of \<open>g_level\<close>.\<close>

definition log_start :: log_state where
  "log_start = \<lparr>g_level = LOG_QUIET, log_errno = 0, log_stderr = []\<rparr>"

definition set_log_level :: "log_level_t \<Rightarrow> log_state \<Rightarrow> log_state" where
  "set_log_level level s = s\<lparr>g_level := level\<rparr>"

text \<open>\<open>__FILE__\<close>, \<open>__LINE__\<close> and \<open>__func__\<close>\<close>

record position =
  src_file :: string
  src_line :: nat
  src_func :: string

definition line_number :: "nat \<Rightarrow> string" where
  "line_number n = map (\<lambda>d. char_of (48 + d)) (decimal_digits n)"

definition LOG_BUF :: nat where "LOG_BUF = 2048"
definition EXIT_FAILURE :: int where "EXIT_FAILURE = 1"

text \<open>\<open>snprintf (buf, 2048, ...)\<close>, read back as a string: cut to fit, up to the first zero.\<close>

definition log_buf :: "string \<Rightarrow> string" where
  "log_buf text = takeWhile (\<lambda>c. c \<noteq> CHR 0x00) (take (LOG_BUF - 1) text)"

definition place :: "position \<Rightarrow> string" where
  "place p = src_file p @ '':'' @ line_number (src_line p) @ '' :: '' @ src_func p @ '' :: ''"

definition log_print :: "string \<Rightarrow> log_state \<Rightarrow> log_state" where
  "log_print l s = s\<lparr>log_stderr := log_stderr s @ [l @ [CHR 0x0A]]\<rparr>"

subsection \<open>The macros\<close>

definition INFO :: "position \<Rightarrow> string \<Rightarrow> log_state \<Rightarrow> log_state" where
  "INFO p text s = log_print (''[INFO]:  '' @ place p @ log_buf text) s"

definition ERROR ::
  "(int \<Rightarrow> string) \<Rightarrow> position \<Rightarrow> string \<Rightarrow> log_state \<Rightarrow> log_state \<times> int option" where
  "ERROR strerr p text s =
     (log_print (''[ERROR]:  '' @ place p @ strerr (log_errno s) @ '' :: '' @ log_buf text) s,
      Some EXIT_FAILURE)"

definition PANIC :: "position \<Rightarrow> string \<Rightarrow> log_state \<Rightarrow> log_state \<times> int option" where
  "PANIC p text s =
     (log_print (''[PANIC]: '' @ place p @ log_buf text) s, Some EXIT_FAILURE)"

definition WARN :: "position \<Rightarrow> string \<Rightarrow> log_state \<Rightarrow> log_state" where
  "WARN p text s =
     (if g_level s = LOG_NORMAL \<or> g_level s = LOG_VERBOSE
      then log_print (''[WARN]:  '' @ place p @ log_buf text) s else s)"

definition LOG :: "position \<Rightarrow> string \<Rightarrow> log_state \<Rightarrow> log_state" where
  "LOG p text s =
     (if g_level s = LOG_NORMAL \<or> g_level s = LOG_VERBOSE
      then log_print (''[LOG]:   '' @ place p @ log_buf text) s else s)"

definition DEBUG :: "position \<Rightarrow> string \<Rightarrow> log_state \<Rightarrow> log_state" where
  "DEBUG p text s =
     (if g_level s = LOG_VERBOSE
      then log_print (''[DEBUG]: '' @ place p @ log_buf text) s else s)"

text \<open>\<open>CHECK (X)\<close> for the value of \<open>X\<close>: \<open>Inl\<close> is the argument of \<open>exit\<close>, \<open>Inr\<close> the value of the
  expression.\<close>

definition CHECK ::
  "(int \<Rightarrow> string) \<Rightarrow> position \<Rightarrow> int \<Rightarrow> log_state \<Rightarrow> log_state \<times> (int + int)" where
  "CHECK strerr p val s =
     (if val = - 1 then
        (log_print (''[ERROR] ('' @ src_file p @ '':'' @ line_number (src_line p) @ '') -- '' @
           strerr (log_errno s)) s, Inl (- 1))
      else (s, Inr val))"

definition ALWAYS_ASSERT ::
  "position \<Rightarrow> bool \<Rightarrow> string \<Rightarrow> log_state \<Rightarrow> log_state \<times> int option" where
  "ALWAYS_ASSERT p condexpr text s = (if \<not> condexpr then PANIC p text s else (s, None))"

subsection \<open>A program's diagnostics\<close>

text \<open>The statements of a program that concern diagnostics, executed in order up to the first
  that ends the process.\<close>

datatype log_stmt =
    Info position string
  | Warn position string
  | Log position string
  | Debug position string
  | Error position string
  | Assert position bool string
  | Level log_level_t

fun log_exec :: "(int \<Rightarrow> string) \<Rightarrow> log_stmt \<Rightarrow> log_state \<Rightarrow> log_state \<times> int option" where
  "log_exec strerr (Info p t) s = (INFO p t s, None)"
| "log_exec strerr (Warn p t) s = (WARN p t s, None)"
| "log_exec strerr (Log p t) s = (LOG p t s, None)"
| "log_exec strerr (Debug p t) s = (DEBUG p t s, None)"
| "log_exec strerr (Error p t) s = ERROR strerr p t s"
| "log_exec strerr (Assert p c t) s = ALWAYS_ASSERT p c t s"
| "log_exec strerr (Level l) s = (set_log_level l s, None)"

fun log_run :: "(int \<Rightarrow> string) \<Rightarrow> log_stmt list \<Rightarrow> log_state \<Rightarrow> log_state \<times> int option" where
  "log_run strerr [] s = (s, None)"
| "log_run strerr (m # ms) s =
     (case log_exec strerr m s of (s, Some k) \<Rightarrow> (s, Some k) | (s, None) \<Rightarrow> log_run strerr ms s)"

text \<open>What a statement may print, from which level on, and whether it ends the process.\<close>

fun log_line :: "(int \<Rightarrow> string) \<Rightarrow> int \<Rightarrow> log_stmt \<Rightarrow> string" where
  "log_line strerr e (Info p t) = ''[INFO]:  '' @ place p @ log_buf t"
| "log_line strerr e (Warn p t) = ''[WARN]:  '' @ place p @ log_buf t"
| "log_line strerr e (Log p t) = ''[LOG]:   '' @ place p @ log_buf t"
| "log_line strerr e (Debug p t) = ''[DEBUG]: '' @ place p @ log_buf t"
| "log_line strerr e (Error p t) = ''[ERROR]:  '' @ place p @ strerr e @ '' :: '' @ log_buf t"
| "log_line strerr e (Assert p c t) = ''[PANIC]: '' @ place p @ log_buf t"
| "log_line strerr e (Level l) = ''''"

fun log_shown :: "log_level_t \<Rightarrow> log_stmt \<Rightarrow> bool" where
  "log_shown l (Warn p t) \<longleftrightarrow> LOG_NORMAL \<le> l"
| "log_shown l (Log p t) \<longleftrightarrow> LOG_NORMAL \<le> l"
| "log_shown l (Debug p t) \<longleftrightarrow> LOG_VERBOSE \<le> l"
| "log_shown l (Assert p c t) \<longleftrightarrow> \<not> c"
| "log_shown l (Level l') \<longleftrightarrow> False"
| "log_shown l _ \<longleftrightarrow> True"

fun log_fatal :: "log_stmt \<Rightarrow> bool" where
  "log_fatal (Error p t) \<longleftrightarrow> True"
| "log_fatal (Assert p c t) \<longleftrightarrow> \<not> c"
| "log_fatal _ \<longleftrightarrow> False"

fun sets_level :: "log_stmt \<Rightarrow> bool" where
  "sets_level (Level l) \<longleftrightarrow> True"
| "sets_level _ \<longleftrightarrow> False"

text \<open>The statements that are reached: up to and with the first fatal one.\<close>

fun log_reached :: "log_stmt list \<Rightarrow> log_stmt list" where
  "log_reached [] = []"
| "log_reached (m # ms) = (if log_fatal m then [m] else m # log_reached ms)"

lemmas log_macro_defs =
  INFO_def ERROR_def PANIC_def WARN_def LOG_def DEBUG_def ALWAYS_ASSERT_def log_print_def set_log_level_def

lemma log_exec_eq:
  "\<not> sets_level m \<Longrightarrow> log_exec strerr m s =
     (if log_shown (g_level s) m then log_print (log_line strerr (log_errno s) m) s else s,
      if log_fatal m then Some EXIT_FAILURE else None)"
  by (cases m) (simp_all add: log_macro_defs)

lemma log_run_eq:
  "\<forall>m \<in> set ms. \<not> sets_level m \<Longrightarrow> log_run strerr ms s =
     (s\<lparr>log_stderr := log_stderr s @ map (\<lambda>m. log_line strerr (log_errno s) m @ [CHR 0x0A])
                       (filter (log_shown (g_level s)) (log_reached ms))\<rparr>,
      if \<exists>m \<in> set ms. log_fatal m then Some EXIT_FAILURE else None)"
  by (induction ms arbitrary: s) (auto simp: log_exec_eq log_print_def)

lemma log_shown_mono: "l \<le> l' \<Longrightarrow> log_shown l m \<Longrightarrow> log_shown l' m"
  by (cases m; cases l') (auto simp: less_eq_log_level_t_def)

lemma log_buf_short: "length (log_buf t) < LOG_BUF"
  using length_takeWhile_le [of "\<lambda>c. c \<noteq> CHR 0x00" "take (LOG_BUF - 1) t"]
  by (simp add: log_buf_def LOG_BUF_def del: length_takeWhile_le)

lemma subseq_filter_mono:
  assumes "\<And>x. P x \<Longrightarrow> Q x"
  shows "subseq (filter P xs) (filter Q xs)"
  using assms by (induction xs) auto

subsection \<open>Properties\<close>


definition lock_place :: position where
  "lock_place = \<lparr>src_file = ''fs/operations.c'', src_line = 81, src_func = ''tfs_open''\<rparr>"


text \<open>Raising the level only adds lines: what is printed at a level is a subsequence of what
  the same statements print at any higher one, and the process ends in the same way.\<close>

theorem log_level_monotone:
  assumes "l \<le> l'" and "\<forall>m \<in> set ms. \<not> sets_level m"
  shows "subseq (log_stderr (fst (log_run strerr ms (set_log_level l s))))
                (log_stderr (fst (log_run strerr ms (set_log_level l' s)))) \<and>
         snd (log_run strerr ms (set_log_level l s)) = snd (log_run strerr ms (set_log_level l' s))"
  using subseq_filter_mono [of "log_shown l" "log_shown l'" "log_reached ms"] log_shown_mono [OF assms(1)]
  by (auto simp: log_run_eq [OF assms(2)] set_log_level_def intro!: list_emb_append_mono subseq_map)

theorem log_level_monotone_witness:
  "subseq (log_stderr (fst (log_run (\<lambda>e. '''') [Debug lock_place ''a''] (set_log_level LOG_QUIET log_start))))
          (log_stderr (fst (log_run (\<lambda>e. '''') [Debug lock_place ''a''] (set_log_level LOG_VERBOSE log_start))))"
  using log_level_monotone [of LOG_QUIET LOG_VERBOSE "[Debug lock_place ''a'']" "\<lambda>e. ''''" log_start] by simp

text \<open>What the other theories say of an assertion, \<open>always_assert\<close>, is \<open>ALWAYS_ASSERT\<close> seen
  without its output: it fails with the fault \<open>Panic\<close> exactly when the macro ends the process,
  which prints one line; a condition that holds prints nothing.\<close>

theorem always_assert_is_macro:
  "always_assert c msg =
     (case ALWAYS_ASSERT p c text s of (_, None) \<Rightarrow> Inr () | (_, Some _) \<Rightarrow> Inl (Panic msg)) \<and>
   log_stderr (fst (ALWAYS_ASSERT p c text s)) =
     log_stderr s @ (if c then [] else [''[PANIC]: '' @ place p @ log_buf text @ [CHR 0x0A]])"
  by (simp add: ALWAYS_ASSERT_def PANIC_def log_print_def)

end
