(* ===== verification/FormatTest.thy ===== *)
theory FormatTest
  imports Protocol
begin

text \<open>
  The test program \<open>tests/test.c\<close>: it writes a request by hand into an array of
  \<open>MAX_REQUEST\<close> bytes, a code followed by the two names, and prints the array as a string
  after each step. What uninitialised local arrays hold are parameters.
\<close>

definition MAX_REQUEST :: nat where "MAX_REQUEST = 1 + MAX_BOX_NAME + MAX_PIPE_NAME"

definition str_session_pipe :: "byte list" where
  "str_session_pipe = [115, 101, 115, 115, 105, 111, 110, 95, 112, 105, 112, 101]"
definition str_box_name :: "byte list" where "str_box_name = [98, 111, 120, 95, 110, 97, 109, 101]"
definition str_request :: "byte list" where "str_request = [114, 101, 113, 117, 101, 115, 116, 58, 32]"

text \<open>Writing into a local array.\<close>

definition put_bytes :: "nat \<Rightarrow> byte list \<Rightarrow> byte list \<Rightarrow> byte list res" where
  "put_bytes off bs m = (if off + length bs \<le> length m then Inr (overwrite off bs m) else Inl Out_of_bounds)"

text \<open>\<open>strcpy (name, text)\<close> and the filling up with zeros; the length is tested with \<open>short_enough\<close>.\<close>

definition local_name :: "(nat \<Rightarrow> bool) \<Rightarrow> byte list \<Rightarrow> byte list \<Rightarrow> byte list res" where
  "local_name short_enough text name =
     res_bind (c_strcpy (text @ [0])) (\<lambda>bs.
     res_bind (put_bytes 0 bs name) (\<lambda>name.
     res_bind (c_strlen name) (\<lambda>n.
     if short_enough n then put_bytes n (replicate (length name - n) 0) name else Inr name)))"

text \<open>\<open>printf ("request: %s\n", request)\<close>\<close>

definition print_request :: "byte list \<Rightarrow> byte list list \<Rightarrow> byte list list res" where
  "print_request request out = res_bind (c_strlen request) (\<lambda>n. Inr (out @ [str_request @ take n request]))"

definition test_main :: "byte list \<Rightarrow> byte list \<Rightarrow> byte list \<Rightarrow> (int \<times> byte list list) res" where
  "test_main request pipe boc =
     res_bind (local_name (\<lambda>n. n \<le> MAX_PIPE_NAME) str_session_pipe pipe) (\<lambda>pipe.
     res_bind (local_name (\<lambda>n. n < MAX_BOX_NAME) str_box_name boc) (\<lambda>boc.
     res_bind (put_bytes 0 [code_byte C_BOX] request) (\<lambda>request.
     let size = 1 in
     res_bind (print_request request []) (\<lambda>out.
     res_bind (c_strncpy pipe MAX_PIPE_NAME) (\<lambda>bs.
     res_bind (put_bytes size bs request) (\<lambda>request.
     res_bind (c_strlen pipe) (\<lambda>n.
     let size = size + n in
     res_bind (put_bytes size [0] request) (\<lambda>request.
     res_bind (print_request request out) (\<lambda>out.
     res_bind (c_strncpy boc MAX_BOX_NAME) (\<lambda>bs.
     res_bind (put_bytes size bs request) (\<lambda>request.
     res_bind (c_strlen boc) (\<lambda>n.
     let size = size + n in
     res_bind (put_bytes size [0] request) (\<lambda>request.
     res_bind (print_request request out) (\<lambda>out. Inr (0, out)))))))))))))))"

lemma local_name_eq:
  assumes "0 \<notin> set s" and "length s < length name" and "ok (length s)"
  shows "local_name ok s name = Inr (s @ replicate (length name - length s) 0)"
proof -
  have 1: "c_strcpy (s @ [0]) = Inr (s @ [0])" using assms(1) by (simp add: cstr_simps)
  let ?m = "s @ 0 # drop (Suc (length s)) name"
  have 2: "put_bytes 0 (s @ [0]) name = Inr ?m" using assms(2) by (simp add: put_bytes_def overwrite_def)
  have 3: "c_strlen ?m = Inr (length s)" using assms(1) by (simp add: cstr_simps)
  have "length ?m = length name" using assms(2) by simp
  then have "put_bytes (length s) (replicate (length ?m - length s) 0) ?m =
      Inr (s @ replicate (length name - length s) 0)"
    using assms(2) by (simp add: put_bytes_def overwrite_def)
  then show ?thesis using assms(3) by (simp add: local_name_def 1 2 3)
qed

lemma print_request_eq:
  "print_request request out = (if terminated request then Inr (out @ [str_request @ cstr request]) else Inl Out_of_bounds)"
proof -
  have "take (length (cstr request)) request = cstr request"
    unfolding cstr_def by (rule takeWhile_eq_take [symmetric])
  then show ?thesis
    by (simp add: print_request_def c_strlen_terminated c_strlen_unterminated)
qed

text \<open>Writing behind a prefix.\<close>

lemma put_behind:
  "off = length a \<Longrightarrow> length bs \<le> length d \<Longrightarrow> put_bytes off bs (a @ d) = Inr (a @ bs @ drop (length bs) d)"
  by (simp add: put_bytes_def overwrite_def)

lemma name_copy:
  assumes "0 \<notin> set s" and "length s < n"
  shows "c_strncpy (s @ replicate (n - length s) 0) n = Inr (s @ replicate (n - length s) 0)"
    and "c_strlen (s @ replicate (n - length s) 0) = Inr (length s)"
proof -
  obtain k where k: "n - length s = Suc k" using assms(2) by (cases "n - length s") auto
  have "cstr (s @ replicate (n - length s) 0) = s" using assms(1) unfolding k by simp
  moreover have "terminated (s @ replicate (n - length s) 0)" using assms(2) by simp
  ultimately show "c_strncpy (s @ replicate (n - length s) 0) n = Inr (s @ replicate (n - length s) 0)"
    "c_strlen (s @ replicate (n - length s) 0) = Inr (length s)"
    using assms(2) by (simp_all add: c_strncpy_terminated c_strlen_terminated)
qed

text \<open>The test's first line prints the array behind the code before anything was written there:
  with no zero among the bytes the stack happens to hold it reads past the end. Otherwise the
  test returns 0 and the other two lines are the code followed by the first name and by both.\<close>

theorem test_main_outcome:
  assumes "length request = MAX_REQUEST" and "length pipe = MAX_PIPE_NAME" and "length boc = MAX_BOX_NAME"
  shows "test_main request pipe boc =
     (if terminated (tl request) then
        Inr (0, [str_request @ 3 # cstr (tl request),
                 str_request @ 3 # str_session_pipe,
                 str_request @ 3 # str_session_pipe @ str_box_name])
      else Inl Out_of_bounds)"
proof -
  define P where "P = str_session_pipe"
  define B where "B = str_box_name"
  have P: "0 \<notin> set P" "length P = 12" and B: "0 \<notin> set B" "length B = 8"
    by (simp_all add: P_def B_def str_session_pipe_def str_box_name_def)
  let ?p = "P @ replicate (257 - length P) 0" and ?b = "B @ replicate (33 - length B) 0"
  have names: "local_name (\<lambda>n. n \<le> 257) P pipe = Inr ?p" "local_name (\<lambda>n. n < 33) B boc = Inr ?b"
    using local_name_eq [of P pipe] local_name_eq [of B boc] P B assms(2,3) by (simp_all add: field_lengths)
  obtain x j where j: "request = x # j" "length j = 290"
    using assms(1) by (cases request) (simp_all add: MAX_REQUEST_def field_lengths)
  have code: "put_bytes 0 [code_byte C_BOX] (x # j) = Inr (3 # j)"
    by (simp add: put_bytes_def overwrite_def)
  have copies: "c_strncpy ?p 257 = Inr ?p" "c_strlen ?p = Inr (length P)" "c_strncpy ?b 33 = Inr ?b" "c_strlen ?b = Inr (length B)"
    using name_copy [of P 257] name_copy [of B 33] P B by simp_all
  let ?r1 = "(3 # P) @ replicate 245 0 @ drop 257 j"
  let ?r2 = "(3 # P @ B) @ replicate 25 0 @ drop 33 (replicate 245 0 @ drop 257 j)"
  have w1: "put_bytes 1 ?p (3 # j) = Inr ?r1"
    using put_behind [of 1 "[3]" ?p j] j(2) P by simp
  have z1: "put_bytes 13 [0] ?r1 = Inr ?r1"
    using put_behind [of 13 "3 # P" "[0]" "replicate 245 0 @ drop 257 j"] P by (simp add: numeral_eq_Suc)
  have w2: "put_bytes 13 ?b ?r1 = Inr ?r2"
    using put_behind [of 13 "3 # P" ?b "replicate 245 0 @ drop 257 j"] P B by simp
  have z2: "put_bytes 21 [0] ?r2 = Inr ?r2"
    using put_behind [of 21 "3 # P @ B" "[0]" "replicate 25 0 @ drop 33 (replicate 245 0 @ drop 257 j)"] P B
    by (simp add: numeral_eq_Suc)
  have zeros: "replicate 245 (0 :: byte) = 0 # replicate 244 0" "replicate 25 (0 :: byte) = 0 # replicate 24 0"
    by (simp_all add: numeral_eq_Suc)
  have c: "cstr ?r1 = 3 # P" "cstr ?r2 = 3 # P @ B" "terminated ?r1" "terminated ?r2"
    using P(1) B(1) cstr_append_zero [of "3 # P"] cstr_append_zero [of "3 # P @ B"] unfolding zeros by simp_all
  have print: "print_request ?r1 out = Inr (out @ [str_request @ 3 # P])"
    "print_request ?r2 out = Inr (out @ [str_request @ 3 # P @ B])" for out
    unfolding print_request_eq c(1,2) using c(3,4) by simp_all
  have first: "print_request (3 # j) [] =
      (if terminated j then Inr [str_request @ 3 # cstr j] else Inl Out_of_bounds)"
    by (simp add: print_request_eq)
  have size: "1 + length P = 13" "13 + length B = 21" using P B by simp_all
  show ?thesis
    unfolding test_main_def P_def [symmetric] B_def [symmetric] field_lengths
    by (cases "terminated j", simp_all only: names code res_bind.simps Let_def first copies j(1) list.sel w1 z1 w2 z2
        print size if_True if_False simp_thms) simp
qed

theorem test_main_outcome_witness:
  "test_main (replicate 291 7) (replicate 257 7) (replicate 33 7) = Inl Out_of_bounds"
  using test_main_outcome [of "replicate 291 7" "replicate 257 7" "replicate 33 7"]
  by (simp add: MAX_REQUEST_def field_lengths)

end
