(* ===== verification/Spec2Isabelle.thy ===== *)
theory Spec2Isabelle
  imports TfsProps TfsThreads Protocol BoxList PcQueue Posix Mbroker Clients Sessions Pipe Logging FormatTest
begin

text \<open>
  A verification development for the message system in \<open>projeto-so-2022-23\<close>: a broker keeps
  boxes of messages in an in-memory file system; publishers write into a box, subscribers read
  from one, managers create, remove and list boxes; all talk over named pipes.

  \<^bold>\<open>The parts and their theories\<close>

  \<^item> \<open>Prelude\<close>, \<open>CString\<close>: faults and the result type of a C call (\<open>res_bind\<close> sequences calls),
    arrays behind pointers, byte memory, 64-bit \<open>size_t\<close>; the functions of \<open>string.h\<close> the code
    calls, over memory that ends.
  \<^item> \<open>TfsState\<close> is \<open>fs/state.c\<close> and \<open>fs/state.h\<close>; \<open>TfsOps\<close> is \<open>fs/operations.c\<close>. One definition per
    C function, by its name; the record \<open>fs_state\<close> holds the static variables. \<open>TfsAlloc\<close> and
    \<open>TfsDir\<close> have the facts about allocation tables and directory blocks (the contract of a
    directory is the locale \<open>directory\<close>), \<open>TfsInv\<close> the invariant \<open>fs_inv\<close>, \<open>TfsInit\<close> its
    establishment. \<open>AbsFs\<close> is the abstract file system (a directory, contents of files, open
    handles with offsets) with one specification per operation; \<open>TfsSpec\<close> gives the abstraction
    \<open>absf\<close>, \<open>TfsRefine\<close> proves that every operation implements its specification, and
    \<open>FsClient\<close> states this as the locale \<open>file_system\<close>, from which facts about sequences of
    calls follow. \<open>TfsProps\<close> has the properties.
  \<^item> Threads that share the file system: \<open>Monitor\<close> is about any module whose calls are sequences
    of small steps under one lock (the locales \<open>lock_protected\<close> and \<open>lock_progress\<close>).
    \<open>TfsMicro\<close> has \<open>fs/operations.c\<close> a second time, as such steps: a program point between any
    two calls of \<open>state.c\<close> or accesses to the shared variables, with \<open>g_library_mutex\<close> taken and
    released by steps of their own. It proves that the steps in sequence are the functions of
    \<open>TfsOps\<close> and interprets the first locale; \<open>TfsThreads\<close> interprets the second and has the
    properties of any number of threads that interleave.
  \<^item> \<open>Protocol\<close>: codes and requests of \<open>utils/utility_funcs.h\<close>, \<open>newRequest\<close> and
    \<open>send_request\<close>, and the bytes of a request on a pipe.
  \<^item> \<open>BoxList\<close>: the linked list of boxes of \<open>utils/utility_funcs.c\<close> over a store of nodes. The
    loops follow pointers and are partial functions; \<open>None\<close> means the loop never ends, and the
    theorems say when it does. The contract of a sorted collection is a locale, interpreted on
    \<open>insertion_sort\<close>.
  \<^item> \<open>PcQueue\<close>: \<open>producer-consumer/producer-consumer.c\<close>, for one thread and as steps of any number
    of interleaving threads.
  \<^item> \<open>Posix\<close>: the environment of a process. What \<open>open\<close>, \<open>read\<close>, \<open>write\<close>, \<open>malloc\<close> and \<open>errno\<close>
    deliver is a script in the state, so every theorem holds for all behaviours of the system;
    what is printed on \<open>stdout\<close> and \<open>stderr\<close> is recorded there, text by text.
  \<^item> \<open>Mbroker\<close>: \<open>mbroker/mbroker.c\<close> over the file system, the list and the requests: the handlers
    (their contract is the locale \<open>handler\<close>), \<open>selector\<close>, the loop \<open>serve\<close> and \<open>main\<close>.
  \<^item> \<open>Clients\<close>: the \<open>main\<close> functions and loops of \<open>publisher/pub.c\<close>, \<open>subscriber/sub.c\<close> and
    \<open>manager/manager.c\<close>.
  \<^item> \<open>Sessions\<close>: the handlers of the broker with a list of boxes, from the \<open>open\<close> of a session to its
    \<open>close\<close>: what a publisher's session leaves in the file system, and who is refused.
  \<^item> \<open>Pipe\<close>: the register pipe shared by the clients and the broker, as steps of writes and reads.
  \<^item> \<open>Logging\<close>: \<open>utils/logging.h\<close>, \<open>utils/logging.c\<close> and \<open>ALWAYS_ASSERT\<close> with what they print.
  \<^item> \<open>FormatTest\<close>: the program \<open>tests/test.c\<close>, which builds a request by hand and prints it.
  \<^item> This theory: properties of the broker as a whole, from the clients' requests on the pipe to
    their handlers.

  \<^bold>\<open>What the lemmas show\<close>

  The file system keeps an invariant and refines its specification under every allowed call;
  the exceptions (truncating or unlinking a file that is open) are excluded by \<open>call_ok\<close> and shown
  to go wrong. Threads that share it exclude one another and get what the same calls give one
  after the other, however their steps interleave, and all their runs end with all calls made
  (invariants by rule induction on the steps, and a measure). Insertion into the list of boxes is the
  library's \<open>insort_key\<close> and terminates.
  Requests of many clients reach the handlers whole and in order, and a publisher's session on
  an accepted box appends its text to the file of the box. The rest of the program mostly
  fails, and the theorems say how: \<open>find_box\<close>, \<open>remove_box\<close>, the queue after one dequeue,
  \<open>send_request\<close>, subscriptions, and the broker, whose \<open>head\<close> is a null pointer.

  \<^bold>\<open>Bounds and fuel\<close>

  Loops with a counter are recursive functions over the number of iterations left. Loops over
  input are recursive over the script of reads or writes; when the script ends the result is
  \<open>Waiting\<close>, and the theorems hold for scripts of any length. Loops over pointers are partial
  functions. A call of the file system is at most twelve of the steps of \<open>TfsMicro\<close> (\<open>tfs_rank\<close>), so
  that what is left of it is a total function. Layouts and sizes are those of x86-64.

  \<^bold>\<open>Not modelled\<close>

  What the macros of \<open>Logging\<close> print where the other theories have their calls: one that ends the
  process is a fault of the call there; \<open>insert_delay\<close>, which only spends time; \<open>fcntl\<close>; the
  build files. A pthread mutex is a boolean and a wait that nothing signals is
  \<open>Deadlock\<close>. Threads interleave between accesses to shared memory, which
  are taken to be sequentially consistent: with the exclusion proved there are no races on it.
  The broker runs in one thread, as the code does. Apart from \<open>Pipe\<close>, which assumes of a pipe what
  POSIX promises, what processes exchange is left to the scripts.
\<close>

subsection \<open>From a request to its handler\<close>

lemma request_strings:
  assumes "request_ok r" and "terminated (rq_session_pipe r)" and "terminated (rq_box_name r)"
  shows "cstr (drop 1 (request_bytes r)) = cstr (rq_session_pipe r)"
    and "cstr (drop 258 (request_bytes r)) = cstr (rq_box_name r)"
    and "terminated (drop 258 (request_bytes r))"
  using assms by (simp_all add: request_bytes_def request_ok_def field_lengths cstr_append)

text \<open>The handler of each of the five codes the broker accepts.\<close>

fun handler_of :: "codes \<Rightarrow> (byte list \<Rightarrow> byte list \<Rightarrow> broker \<Rightarrow> broker res) option" where
  "handler_of R_PUB = Some codeR_PUB"
| "handler_of R_SUB = Some codeR_SUB"
| "handler_of C_BOX = Some codeC_BOX"
| "handler_of R_BOX = Some codeR_BOX"
| "handler_of L_BOX = Some (\<lambda>p b. codeL_BOX p)"
| "handler_of _ = None"

lemma selector_handler: "handler_of c = Some f \<Longrightarrow> selector (code_byte c) p b s = f p b s"
  by (cases c) (auto simp: selector_def)

text \<open>The state in which a handler starts after the read.\<close>

definition after_read :: "broker \<Rightarrow> broker" where
  "after_read s = s\<lparr>io_errno := 0\<rparr>"

lemma serve_delivers:
  assumes "server_running s" and "request_ok r" and "request_ok old"
  shows "serve h fd (delivers r # evs) old s =
         res_bind (selector (rq_code r) (drop 1 (request_bytes r)) (drop 258 (request_bytes r)) (after_read s))
           (serve h fd evs r)"
proof -
  have "ev_errno (delivers r) = 0" "\<not> ev_sigint (delivers r)" by (simp_all add: delivers_def)
  moreover have "s\<lparr>io_errno := 0, server_running := True\<rparr> = after_read s"
    using assms(1) by (simp add: after_read_def)
  moreover have "io_errno (after_read s) = 0" by (simp add: after_read_def)
  ultimately show ?thesis
    using assms by (simp add: Mbroker.deliver_eq delivers_simps EINTR_def Let_def)
qed

lemma zero_request_ok: "request_ok zero_request"
  by (simp add: request_ok_def zero_request_def)

text \<open>A request that arrives whole on the register pipe is given to the handler of its code,
  with pointers to the session pipe name and the box name it was made of; a code that is not a
  request stops the server.\<close>

theorem request_reaches_handler:
  assumes "server_running s" and "request_ok r" and "request_ok old" and "rq_code r = code_byte c"
    and "terminated (rq_session_pipe r)" and "terminated (rq_box_name r)"
  shows "\<exists>p b. cstr p = cstr (rq_session_pipe r) \<and> cstr b = cstr (rq_box_name r) \<and>
           serve h fd (delivers r # evs) old s =
             res_bind (case handler_of c of Some f \<Rightarrow> f p b (after_read s)
                       | None \<Rightarrow> Inr (stop_server ''Inexistent code selected.'' (after_read s)))
               (serve h fd evs r)"
proof -
  note strings = request_strings [OF assms(2,5,6)]
  have "selector (rq_code r) p b t = (case handler_of c of Some f \<Rightarrow> f p b t
      | None \<Rightarrow> Inr (stop_server ''Inexistent code selected.'' t))" for p b t
    unfolding assms(4) by (cases c) (simp_all add: selector_def)
  then show ?thesis using strings serve_delivers [OF assms(1-3)] by auto
qed

theorem request_reaches_handler_witness:
  "\<exists>p b. cstr p = [47] \<and> cstr b = [65] \<and>
     serve 0 3 [delivers (sample_request R_BOX 65 0)] zero_request demo_broker =
       res_bind (codeR_BOX p b (after_read demo_broker)) (serve 0 3 [] (sample_request R_BOX 65 0))"
proof -
  let ?r = "sample_request R_BOX 65 0"
  have r: "request_ok ?r" "rq_code ?r = code_byte R_BOX" "terminated (rq_session_pipe ?r)"
    "terminated (rq_box_name ?r)" "cstr (rq_session_pipe ?r) = [47]" "cstr (rq_box_name ?r) = [65]"
    using sample_request_ok [of 0 R_BOX 65] by (simp_all add: sample_request_def)
  have "server_running demo_broker" by (simp add: demo_broker_def)
  from request_reaches_handler [OF this r(1) zero_request_ok r(2-4), of 0 3 "[]"] show ?thesis
    unfolding r(5,6) handler_of.simps option.case .
qed

subsection \<open>From the clients' pipe to the handlers\<close>

text \<open>The loop of \<open>main\<close> as one would describe it: the requests one after the other, each given to the
  handler of its code with pointers to its two names, until the server is told to stop.\<close>

definition code_of :: "byte \<Rightarrow> codes option" where
  "code_of b = List.find (\<lambda>c. code_byte c = b) [R_PUB, R_SUB, C_BOX, R_BOX, L_BOX]"

definition handle_request :: "request \<Rightarrow> broker \<Rightarrow> broker res" where
  "handle_request r s =
     (case Option.bind (code_of (rq_code r)) handler_of of
        None \<Rightarrow> Inr (stop_server ''Inexistent code selected.'' s)
      | Some f \<Rightarrow> f (drop 1 (request_bytes r)) (drop 258 (request_bytes r)) s)"

fun serve_requests :: "int \<Rightarrow> int \<Rightarrow> request list \<Rightarrow> broker \<Rightarrow> (int \<times> broker) res" where
  "serve_requests h fd [] s = (if server_running s then Inl Waiting else shut_down h fd (- 1) s)"
| "serve_requests h fd (r # rs) s =
     (if server_running s then res_bind (handle_request r (after_read s)) (serve_requests h fd rs)
      else shut_down h fd (- 1) s)"

lemma selector_is_handle:
  "selector (rq_code r) (drop 1 (request_bytes r)) (drop 258 (request_bytes r)) s = handle_request r s"
  by (auto simp: handle_request_def code_of_def selector_def)

lemma serve_stopped: "\<not> server_running s \<Longrightarrow> serve h fd evs req s = shut_down h fd (- 1) s"
  by (cases evs) simp_all

lemma serve_is_serve_requests:
  "\<forall>r \<in> set rs. request_ok r \<Longrightarrow> request_ok old \<Longrightarrow>
     serve h fd (map delivers rs) old s = serve_requests h fd rs s"
proof (induction rs arbitrary: old s)
  case (Cons r rs)
  have "serve h fd (map delivers rs) r = serve_requests h fd rs"
    using Cons.IH [of r] Cons.prems(1) by (simp add: fun_eq_iff)
  then show ?case
    using Cons.prems serve_delivers [of s r old h fd "map delivers rs", unfolded selector_is_handle]
    by (cases "server_running s") (simp_all del: serve.simps(2) add: serve_stopped)
qed simp



subsection \<open>The broker from its start\<close>

text \<open>What \<open>broker_main\<close> does up to the loop when every call succeeds.\<close>

definition good_start :: "startup \<Rightarrow> broker \<Rightarrow> bool" where
  "good_start su s \<longleftrightarrow> su_signal_ok su \<and> init_ok tfs_default_params (su_fs_mallocs su) \<and>
     su_queue su \<noteq> None \<and> fst (su_mkfifo su) \<noteq> - 1 \<and>
     inode_table (bk_fs s) = None \<and> \<not> g_library_mutex (bk_fs s) \<and> bk_head s = None"

lemma broker_main_start:
  assumes "good_start su s" and "io_opens s = (fd, e) # rest" and "fd \<noteq> - 1"
  shows "\<exists>t. broker_main 3 su evs s = serve 0 fd evs zero_request t \<and> server_running t \<and>
           fs_inv (bk_fs t) \<and> bk_head t = None \<and> io_opens t = rest"
proof -
  obtain fs where fs: "tfs_init (Some tfs_default_params) (su_fs_mallocs su) (bk_fs s) = Inr (0, fs)" "fs_inv fs"
    using fs_inv_init assms(1) unfolding good_start_def by blast
  then have init: "tfs_init None (su_fs_mallocs su) (bk_fs s) = Inr (0, fs)" by (simp add: tfs_init_def)
  obtain junk where junk: "su_queue su = Some junk" using assms(1) by (auto simp: good_start_def)
  obtain r e' where mk: "su_mkfifo su = (r, e')" "r \<noteq> - 1"
    using assms(1) by (cases "su_mkfifo su") (auto simp: good_start_def)
  let ?q = "Some (snd (pcq_create (su_queue_mem su) 100 junk))"
  let ?t = "after_open (s\<lparr>bk_fs := fs, bk_queue := ?q, io_errno := e', io_fifo := True\<rparr>)\<lparr>server_running := True\<rparr>"
  have "broker_main 3 su evs s = serve 0 fd evs zero_request ?t"
    using assms init junk mk by (simp add: broker_main_def sys_open_eq good_start_def Let_def)
  then show ?thesis using fs(2) assms by (intro exI [of _ ?t]) (simp add: after_open_def good_start_def)
qed

text \<open>C10: From its start on, with every system call succeeding, the broker is ended by the first
  request it receives, whichever of the five it is.\<close>

theorem first_request_ends_broker:
  assumes "good_start su s" and "io_opens s = (fd, e) # (sp, e') # rest" and "fd \<noteq> - 1" and "sp \<noteq> - 1"
    and "request_ok r" and "handler_of c = Some f" and "rq_code r = code_byte c"
    and "terminated (rq_session_pipe r)" and "terminated (rq_box_name r)"
  shows "broker_main 3 su (delivers r # evs) s = Inl Null_deref"
proof -
  obtain t where t: "broker_main 3 su (delivers r # evs) s = serve 0 fd (delivers r # evs) zero_request t"
    "server_running t" "fs_inv (bk_fs t)" "bk_head t = None" "io_opens t = (sp, e') # rest"
    using broker_main_start [OF assms(1-3)] by blast
  note strings = request_strings [OF assms(5,8,9)]
  let ?p = "drop 1 (request_bytes r)" and ?b = "drop 258 (request_bytes r)"
  have u: "bk_head (after_read t) = None" "io_opens (after_read t) \<noteq> []" "fst (hd (io_opens (after_read t))) \<noteq> - 1"
    "fs_inv (bk_fs (after_read t))"
    using t assms(4) by (simp_all add: after_read_def)
  have "length (cstr (rq_box_name r)) < 33"
    using length_cstr_less [OF assms(9)] assms(5) by (simp add: request_ok_def field_lengths)
  then have len: "length (cstr ?b) \<le> 32" using strings(2) by simp
  have "selector (rq_code r) ?p ?b (after_read t) = Inl Null_deref"
  proof (cases "c = C_BOX")
    case True
    then show ?thesis
      using create_null_head [OF u(1-4) strings(3) len] assms(7) by (simp add: selector_def)
  next
    case False
    then have "c \<in> {R_PUB, R_SUB, R_BOX, L_BOX}" using assms(6) by (cases c) auto
    then show ?thesis
      using null_head_crash [OF u(1-3)] null_head_list [OF u(1-3)] assms(7) by (auto simp: selector_def)
  qed
  then show ?thesis using t(1) serve_delivers [OF t(2) assms(5) zero_request_ok] by simp
qed

theorem first_request_ends_broker_witness:
  "broker_main 3 demo_startup [delivers (sample_request C_BOX 65 0)]
     (demo_broker\<lparr>bk_fs := cold, io_opens := [(3, 0), (5, 0)]\<rparr>) = Inl Null_deref"
proof -
  let ?r = "sample_request C_BOX 65 0"
  have r: "request_ok ?r" "rq_code ?r = code_byte C_BOX" "terminated (rq_session_pipe ?r)" "terminated (rq_box_name ?r)"
    using sample_request_ok [of 0 C_BOX 65] by (simp_all add: sample_request_def)
  have "good_start demo_startup (demo_broker\<lparr>bk_fs := cold, io_opens := [(3, 0), (5, 0)]\<rparr>)"
    by (simp add: good_start_def demo_startup_def demo_broker_def cold_def init_ok_def params_ok_def mallocs_ok_def
        tfs_default_params_def used_mallocs_def)
  from first_request_ends_broker [OF this _ _ _ r(1) _ r(2-4), of 3 0 5 0 "[]" codeC_BOX "[]"] show ?thesis
    by simp
qed

end
